theory Spec2Isabelle
  imports Complex_Main
begin

section \<open>The listing store of the scraper (src/scraper/src/db.js)\<close>

text \<open>
  The PostgreSQL tables of \<^verbatim>\<open>Database.init\<close> are lists of rows, in insertion order; a
  column is named after its table alias and its SQL name (\<open>l_price\<close> is
  \<^verbatim>\<open>listings.price\<close>, \<open>ph_price\<close> is \<^verbatim>\<open>price_history.price\<close>). A nullable column is
  an \<open>option\<close>. Timestamps are integers counting microseconds, the resolution of
  \<^verbatim>\<open>TIMESTAMPTZ\<close>. \<^verbatim>\<open>NOW()\<close> is the start time of the transaction (or of the
  statement, when it runs outside a transaction): every operation takes it as its first
  argument \<open>now\<close>. Every \<^verbatim>\<open>SERIAL\<close> column has its sequence in the state.
\<close>

type_synonym timestamp = int

record listing =
  l_id :: int
  l_realtor_url :: string
  l_price :: "int option"
  l_street :: string
  l_town :: "string option"
  l_province :: "string option"
  l_beds :: "int option"
  l_baths :: "int option"
  l_sqft :: "int option"
  l_lat :: "real option"
  l_lng :: "real option"
  l_image_urls :: "string list option"
  l_listed_at :: "timestamp option"
  l_first_seen_at :: timestamp
  l_last_seen_at :: timestamp
  l_is_active :: bool
  l_created_at :: timestamp
  l_updated_at :: timestamp

record price_point =
  ph_id :: int
  ph_listing_id :: int
  ph_price :: int
  ph_recorded_at :: timestamp

record user =
  u_id :: int
  u_clerk_id :: string
  u_email :: "string option"
  u_name :: "string option"
  u_avatar_url :: "string option"
  u_created_at :: timestamp
  u_updated_at :: timestamp

record saved_search =
  ss_id :: int
  ss_user_id :: int
  ss_name :: string
  ss_min_price :: "int option"
  ss_max_price :: "int option"
  ss_min_beds :: "int option"
  ss_min_baths :: "int option"
  ss_towns :: "string list option"
  ss_provinces :: "string list option"
  ss_lat :: "real option"
  ss_lng :: "real option"
  ss_radius_km :: "int option"
  ss_alerts_enabled :: bool
  ss_created_at :: timestamp
  ss_updated_at :: timestamp

record favorite =
  f_id :: int
  f_user_id :: int
  f_listing_id :: int
  f_notes :: "string option"
  f_rating :: "int option"
  f_created_at :: timestamp
  f_updated_at :: timestamp

datatype alert_type = new_listing | price_drop | price_increase

record alert =
  a_id :: int
  a_user_id :: int
  a_listing_id :: int
  a_saved_search_id :: "int option"
  a_alert_type :: alert_type
  a_old_price :: "int option"
  a_new_price :: "int option"
  a_sent_at :: "timestamp option"
  a_read_at :: "timestamp option"
  a_created_at :: timestamp

datatype run_status = running | completed | failed

text \<open>
  What the code can throw: the errors PostgreSQL raises from the data of a statement
  (each names the column at fault), the error of a statement that does not reach the
  store (connection refused or lost), and a failure of the extractor
  (\<^verbatim>\<open>scraper.scrape\<close>) with its message.
\<close>

datatype error =
    NotNullViolation string
  | NumericValueOutOfRange
  | ForeignKeyViolation string
  | ConnectionFailure
  | ScrapeFailure string

fun message :: "error \<Rightarrow> string" where
  "message (NotNullViolation column) =
     ''null value in column '' @ column @ '' violates not-null constraint''"
| "message NumericValueOutOfRange = ''value is out of range for type integer''"
| "message (ForeignKeyViolation column) =
     ''insert on table alerts violates foreign key constraint on '' @ column"
| "message ConnectionFailure = ''Connection terminated unexpectedly''"
| "message (ScrapeFailure m) = m"

record scrape_run =
  sr_id :: int
  sr_started_at :: timestamp
  sr_finished_at :: "timestamp option"
  sr_listings_found :: nat
  sr_listings_new :: nat
  sr_listings_updated :: nat
  sr_price_changes :: nat
  sr_status :: run_status
  sr_error :: "string option"

record database =
  listings :: "listing list"
  price_history :: "price_point list"
  users :: "user list"
  saved_searches :: "saved_search list"
  favorites :: "favorite list"
  alerts :: "alert list"
  scrape_runs :: "scrape_run list"
  listings_id_seq :: int
  price_history_id_seq :: int
  alerts_id_seq :: int
  scrape_runs_id_seq :: int

subsection \<open>Snapshots and JavaScript truthiness\<close>

text \<open>
  The listing object that \<^verbatim>\<open>extractListingFromCard\<close> builds and \<^verbatim>\<open>runScrape\<close>
  enriches; \<^verbatim>\<open>null\<close> and \<^verbatim>\<open>undefined\<close> are \<open>None\<close> (node-postgres sends both
  as NULL).
\<close>

record snapshot =
  price :: "int option"
  street :: "string option"
  town :: "string option"
  province :: "string option"
  beds :: "int option"
  baths :: "int option"
  sqft :: "int option"
  listedAt :: "timestamp option"
  detailUrl :: "string option"
  imageUrls :: "string list option"
  lat :: "real option"
  lng :: "real option"

text \<open>\<^verbatim>\<open>if (x)\<close>, \<^verbatim>\<open>x && y\<close>, \<^verbatim>\<open>x || y\<close>: a number is truthy unless it is 0, a string
  unless it is empty; null is falsy.\<close>

definition truthy :: "'a::zero option \<Rightarrow> bool" where
  "truthy v = (case v of None \<Rightarrow> False | Some n \<Rightarrow> n \<noteq> 0)"

definition truthy_str :: "string option \<Rightarrow> bool" where
  "truthy_str v = (case v of None \<Rightarrow> False | Some s \<Rightarrow> s \<noteq> [])"

text \<open>A parameter bound to an \<^verbatim>\<open>INTEGER\<close> column must fit in 32 bits, else the
  statement fails.\<close>

definition int4 :: "int option \<Rightarrow> bool" where
  "int4 v = (case v of None \<Rightarrow> True | Some n \<Rightarrow> - 2147483648 \<le> n \<and> n \<le> 2147483647)"

subsection \<open>upsertListing\<close>

record upsert_result =
  listingId :: int
  isNew :: bool
  priceChanged :: bool
  oldPrice :: "int option"
  newPrice :: "int option"

text \<open>\<^verbatim>\<open>SELECT id, price FROM listings WHERE realtor_url = $1\<close>; a NULL parameter
  matches no row.\<close>

definition select_by_url :: "string option \<Rightarrow> database \<Rightarrow> listing list" where
  "select_by_url url db =
     (case url of None \<Rightarrow> []
      | Some u \<Rightarrow> filter (\<lambda>l. l_realtor_url l = u) (listings db))"

text \<open>\<^verbatim>\<open>INSERT INTO listings (...) VALUES ($1, ..., $12) RETURNING id\<close>: the integer
  parameters are converted first, then the row is formed with its defaults and the
  \<^verbatim>\<open>NOT NULL\<close> columns are checked.\<close>

definition insert_listing :: "timestamp \<Rightarrow> snapshot \<Rightarrow> database \<Rightarrow> error + (int \<times> database)" where
  "insert_listing now data db =
     (if \<not> (int4 (price data) \<and> int4 (beds data) \<and> int4 (baths data) \<and> int4 (sqft data))
      then Inl NumericValueOutOfRange
      else case detailUrl data of
        None \<Rightarrow> Inl (NotNullViolation ''realtor_url'')
      | Some url \<Rightarrow>
         (case street data of
            None \<Rightarrow> Inl (NotNullViolation ''street'')
          | Some st \<Rightarrow>
             (let new_id = listings_id_seq db + 1;
                  row = \<lparr> l_id = new_id,
                          l_realtor_url = url,
                          l_price = price data,
                          l_street = st,
                          l_town = town data,
                          l_province = province data,
                          l_beds = beds data,
                          l_baths = baths data,
                          l_sqft = sqft data,
                          l_lat = (if truthy (lat data) then lat data else None),
                          l_lng = (if truthy (lng data) then lng data else None),
                          l_image_urls =
                            (case imageUrls data of None \<Rightarrow> Some [] | Some imgs \<Rightarrow> Some imgs),
                          l_listed_at = listedAt data,
                          l_first_seen_at = now,
                          l_last_seen_at = now,
                          l_is_active = True,
                          l_created_at = now,
                          l_updated_at = now \<rparr>
              in Inr (new_id,
                      db\<lparr> listings := listings db @ [row], listings_id_seq := new_id \<rparr>))))"

text \<open>\<^verbatim>\<open>INSERT INTO price_history (listing_id, price) VALUES ($1, $2)\<close>\<close>

definition insert_price_history :: "timestamp \<Rightarrow> int \<Rightarrow> int \<Rightarrow> database \<Rightarrow> database" where
  "insert_price_history now lid p db =
     (let new_id = price_history_id_seq db + 1
      in db\<lparr> price_history := price_history db @
                 [\<lparr> ph_id = new_id, ph_listing_id = lid, ph_price = p, ph_recorded_at = now \<rparr>],
             price_history_id_seq := new_id \<rparr>)"

text \<open>\<^verbatim>\<open>UPDATE listings SET price = $2, last_seen_at = NOW(), updated_at = NOW(),
  is_active = TRUE, image_urls = COALESCE($3, image_urls) WHERE id = $1\<close>\<close>

definition update_listing ::
  "timestamp \<Rightarrow> int \<Rightarrow> int option \<Rightarrow> string list option \<Rightarrow> database \<Rightarrow> error + database" where
  "update_listing now lid p imgs db =
     (if \<not> int4 p then Inl NumericValueOutOfRange
      else Inr (db\<lparr> listings :=
             map (\<lambda>l. if l_id l = lid
                      then l\<lparr> l_price := p,
                              l_last_seen_at := now,
                              l_updated_at := now,
                              l_is_active := True,
                              l_image_urls :=
                                (case imgs of None \<Rightarrow> l_image_urls l | Some i \<Rightarrow> Some i) \<rparr>
                      else l)
                 (listings db) \<rparr>))"

text \<open>
  The transaction of \<^verbatim>\<open>upsertListing(data)\<close>. \<open>Inl\<close> is the error thrown after
  \<^verbatim>\<open>ROLLBACK\<close>, which leaves the tables as they were (a sequence value drawn by a
  failed insert would stay drawn in PostgreSQL; the ids here are only ever compared for
  equality).
\<close>

definition upsertListing ::
  "timestamp \<Rightarrow> snapshot \<Rightarrow> database \<Rightarrow> error + (upsert_result \<times> database)" where
  "upsertListing now data db =
     (case select_by_url (detailUrl data) db of
        [] \<Rightarrow>
          (case insert_listing now data db of
             Inl err \<Rightarrow> Inl err
           | Inr (lid, db1) \<Rightarrow>
               Inr (\<lparr> listingId = lid, isNew = True, priceChanged = False,
                      oldPrice = None, newPrice = price data \<rparr>,
                    (case price data of
                       None \<Rightarrow> db1
                     | Some p \<Rightarrow> if p \<noteq> 0 then insert_price_history now lid p db1 else db1)))
      | existing # _ \<Rightarrow>
          (case update_listing now (l_id existing) (price data) (imageUrls data) db of
             Inl err \<Rightarrow> Inl err
           | Inr db1 \<Rightarrow>
               (case price data of
                  Some p \<Rightarrow>
                    if p \<noteq> 0 \<and> truthy (l_price existing) \<and> price data \<noteq> l_price existing
                    then Inr (\<lparr> listingId = l_id existing, isNew = False, priceChanged = True,
                               oldPrice = l_price existing, newPrice = price data \<rparr>,
                             insert_price_history now (l_id existing) p db1)
                    else Inr (\<lparr> listingId = l_id existing, isNew = False, priceChanged = False,
                               oldPrice = l_price existing, newPrice = price data \<rparr>, db1)
                | None \<Rightarrow>
                    Inr (\<lparr> listingId = l_id existing, isNew = False, priceChanged = False,
                           oldPrice = l_price existing, newPrice = price data \<rparr>, db1))))"

subsection \<open>markInactiveListings\<close>

definition grace_window :: int where
  "grace_window = 24 * 60 * 60 * 1000000"

text \<open>\<^verbatim>\<open>UPDATE listings SET is_active = FALSE, updated_at = NOW() WHERE id NOT IN
  (SELECT UNNEST($1::int[])) AND is_active = TRUE AND last_seen_at < NOW() - INTERVAL
  '24 hours'\<close>, skipped when \<^verbatim>\<open>activeIds\<close> is empty.\<close>

definition markInactiveListings :: "timestamp \<Rightarrow> int list \<Rightarrow> database \<Rightarrow> database" where
  "markInactiveListings now activeIds db =
     (if length activeIds = 0 then db
      else db\<lparr> listings :=
             map (\<lambda>l. if l_id l \<notin> set activeIds \<and> l_is_active l
                         \<and> l_last_seen_at l < now - grace_window
                      then l\<lparr> l_is_active := False, l_updated_at := now \<rparr>
                      else l)
                 (listings db) \<rparr>)"

subsection \<open>The scrape-run log\<close>

record stats =
  found :: nat
  new :: nat
  updated :: nat
  priceChanges :: nat

text \<open>\<^verbatim>\<open>INSERT INTO scrape_runs DEFAULT VALUES RETURNING id\<close>\<close>

definition startScrapeRun :: "timestamp \<Rightarrow> database \<Rightarrow> int \<times> database" where
  "startScrapeRun now db =
     (let new_id = scrape_runs_id_seq db + 1
      in (new_id,
          db\<lparr> scrape_runs := scrape_runs db @
                 [\<lparr> sr_id = new_id, sr_started_at = now, sr_finished_at = None,
                    sr_listings_found = 0, sr_listings_new = 0, sr_listings_updated = 0,
                    sr_price_changes = 0, sr_status = running, sr_error = None \<rparr>],
              scrape_runs_id_seq := new_id \<rparr>))"

definition completeScrapeRun :: "timestamp \<Rightarrow> int \<Rightarrow> stats \<Rightarrow> database \<Rightarrow> database" where
  "completeScrapeRun now runId st db =
     db\<lparr> scrape_runs :=
           map (\<lambda>r. if sr_id r = runId
                    then r\<lparr> sr_finished_at := Some now,
                            sr_listings_found := found st,
                            sr_listings_new := new st,
                            sr_listings_updated := updated st,
                            sr_price_changes := priceChanges st,
                            sr_status := completed \<rparr>
                    else r)
               (scrape_runs db) \<rparr>"

definition failScrapeRun :: "timestamp \<Rightarrow> int \<Rightarrow> string \<Rightarrow> database \<Rightarrow> database" where
  "failScrapeRun now runId err db =
     db\<lparr> scrape_runs :=
           map (\<lambda>r. if sr_id r = runId
                    then r\<lparr> sr_finished_at := Some now, sr_status := failed, sr_error := Some err \<rparr>
                    else r)
               (scrape_runs db) \<rparr>"

subsection \<open>createAlert\<close>

text \<open>\<^verbatim>\<open>INSERT INTO alerts (user_id, listing_id, saved_search_id, alert_type, old_price,
  new_price) VALUES ($1, ..., $6)\<close>. The type of \<open>ty\<close> admits exactly the three values
  of the column's \<^verbatim>\<open>CHECK\<close>; the three references are checked against their tables.\<close>

definition createAlert ::
  "timestamp \<Rightarrow> int \<Rightarrow> int \<Rightarrow> alert_type \<Rightarrow> int option \<Rightarrow> int option \<Rightarrow> int option
     \<Rightarrow> database \<Rightarrow> error + database" where
  "createAlert now userId lid ty savedSearchId oldP newP db =
     (if \<not> (int4 oldP \<and> int4 newP) then Inl NumericValueOutOfRange
      else if userId \<notin> set (map u_id (users db)) then Inl (ForeignKeyViolation ''user_id'')
      else if lid \<notin> set (map l_id (listings db)) then Inl (ForeignKeyViolation ''listing_id'')
      else if (case savedSearchId of None \<Rightarrow> False
               | Some s \<Rightarrow> s \<notin> set (map ss_id (saved_searches db)))
        then Inl (ForeignKeyViolation ''saved_search_id'')
      else
        (let new_id = alerts_id_seq db + 1
         in Inr (db\<lparr> alerts := alerts db @
                   [\<lparr> a_id = new_id, a_user_id = userId, a_listing_id = lid,
                      a_saved_search_id = savedSearchId, a_alert_type = ty,
                      a_old_price = oldP, a_new_price = newP,
                      a_sent_at = None, a_read_at = None, a_created_at = now \<rparr>],
                 alerts_id_seq := new_id \<rparr>)))"

section \<open>The scrape pass (src/scraper/src/index.js)\<close>

subsection \<open>The extractor's de-duplication (RealtorScraper.scrape)\<close>

text \<open>
  The \<^verbatim>\<open>for (const listing of pageListings)\<close> loop of \<^verbatim>\<open>scrape\<close>: it stops at
  \<^verbatim>\<open>maxListings\<close>, skips a listing whose (truthy) \<^verbatim>\<open>detailUrl\<close> was seen, and
  records the others.
\<close>

fun addPageListings ::
  "nat \<Rightarrow> snapshot list \<Rightarrow> snapshot list \<times> string set \<Rightarrow> snapshot list \<times> string set" where
  "addPageListings maxListings [] (allListings, seenUrls) = (allListings, seenUrls)"
| "addPageListings maxListings (listing # rest) (allListings, seenUrls) =
     (if length allListings \<ge> maxListings then (allListings, seenUrls)
      else case detailUrl listing of
        None \<Rightarrow> addPageListings maxListings rest (allListings @ [listing], seenUrls)
      | Some url \<Rightarrow>
          if url \<noteq> [] \<and> url \<in> seenUrls
          then addPageListings maxListings rest (allListings, seenUrls)
          else addPageListings maxListings rest
                 (allListings @ [listing],
                  if url \<noteq> [] then insert url seenUrls else seenUrls))"

text \<open>
  The \<^verbatim>\<open>while (pageNum < maxPages && allListings.length < maxListings)\<close> loop, over
  the result pages as the browser delivers them: \<open>pages\<close> are the cards extracted from
  the current page and from each page that \<^verbatim>\<open>goToNextPage\<close> reaches, so the loop also
  ends when \<open>pages\<close> has no next page.
\<close>

fun scrapePages ::
  "nat \<Rightarrow> nat \<Rightarrow> nat \<Rightarrow> snapshot list list \<Rightarrow> snapshot list \<times> string set \<Rightarrow> snapshot list" where
  "scrapePages maxListings maxPages pageNum [] (allListings, seenUrls) = allListings"
| "scrapePages maxListings maxPages pageNum (pageListings # next) (allListings, seenUrls) =
     (if pageNum < maxPages \<and> length allListings < maxListings
      then (let acc = addPageListings maxListings pageListings (allListings, seenUrls)
            in if length (fst acc) \<ge> maxListings then fst acc
               else scrapePages maxListings maxPages (pageNum + 1) next acc)
      else allListings)"

definition scrape :: "nat \<Rightarrow> nat \<Rightarrow> snapshot list list \<Rightarrow> snapshot list" where
  "scrape maxListings maxPages pages = scrapePages maxListings maxPages 0 pages ([], {})"

subsection \<open>runScrape\<close>

text \<open>
  The geocoding step of the loop body. \<open>geocodeAddress\<close> is the external lookup
  (Geoapify): it answers an address with coordinates or with nothing.
\<close>

definition or_empty :: "string option \<Rightarrow> string" where
  "or_empty v = (case v of None \<Rightarrow> [] | Some s \<Rightarrow> s)"

definition geocodeListing :: "(string \<Rightarrow> (real \<times> real) option) \<Rightarrow> snapshot \<Rightarrow> snapshot" where
  "geocodeListing geocodeAddress listing =
     (if \<not> truthy (lat listing) \<and> truthy_str (street listing)
      then (case geocodeAddress
                  (or_empty (street listing) @ '', '' @ or_empty (town listing) @ '', ''
                     @ or_empty (province listing) @ '', Canada'') of
              None \<Rightarrow> listing
            | Some coords \<Rightarrow> listing\<lparr> lat := Some (fst coords), lng := Some (snd coords) \<rparr>)
      else listing)"

text \<open>The branch \<^verbatim>\<open>if (result.isNew) ... else if (result.priceChanged) ... else ...\<close>
  that counts a result.\<close>

definition count_result :: "upsert_result \<Rightarrow> stats \<Rightarrow> stats" where
  "count_result result st =
     (if isNew result then st\<lparr> new := new st + 1 \<rparr>
      else if priceChanged result then st\<lparr> priceChanges := priceChanges st + 1 \<rparr>
      else st\<lparr> updated := updated st + 1 \<rparr>)"

text \<open>
  The wall clock of one pass: when its run record is opened, when the transaction of the
  \<open>i\<close>-th snapshot (counted from 0) begins, and when the retirement, the completion and
  the failure statements run.
\<close>

record clock =
  started_at :: timestamp
  upsert_at :: "nat \<Rightarrow> timestamp"
  retired_at :: timestamp
  completed_at :: timestamp
  failed_at :: timestamp

text \<open>
  The store as the pass finds it: whether the statement that opens the run record, the
  transaction of the \<open>i\<close>-th snapshot, the retirement, the completion and the failure
  statement reach it. A statement that does not reach the store throws and changes
  nothing.
\<close>

record store_link =
  start_ok :: bool
  upsert_ok :: "nat \<Rightarrow> bool"
  retire_ok :: bool
  complete_ok :: bool
  fail_ok :: bool

definition reachable :: store_link where
  "reachable =
     \<lparr> start_ok = True, upsert_ok = (\<lambda>i. True), retire_ok = True, complete_ok = True,
       fail_ok = True \<rparr>"

text \<open>
  The loop \<^verbatim>\<open>for (const listing of listings)\<close>. \<^verbatim>\<open>stats.found\<close> counts the
  snapshots taken up so far, so before its increment it is the position of the current
  one. An error of \<open>upsertListing\<close> leaves the loop (nothing in it catches), with the
  store as the snapshots before it left it.
\<close>

fun saveListingsOn ::
  "store_link \<Rightarrow> (string \<Rightarrow> (real \<times> real) option) \<Rightarrow> clock \<Rightarrow> snapshot list \<Rightarrow> stats
     \<Rightarrow> int list \<Rightarrow> database \<Rightarrow> (error \<times> database) + (stats \<times> int list \<times> database)" where
  "saveListingsOn link geocodeAddress clk [] st activeListingIds db =
     Inr (st, activeListingIds, db)"
| "saveListingsOn link geocodeAddress clk (listing # rest) st activeListingIds db =
     (if \<not> upsert_ok link (found st) then Inl (ConnectionFailure, db)
      else
        case upsertListing (upsert_at clk (found st)) (geocodeListing geocodeAddress listing)
               db of
          Inl err \<Rightarrow> Inl (err, db)
        | Inr (result, db1) \<Rightarrow>
            saveListingsOn link geocodeAddress clk rest
              (count_result result (st\<lparr> found := found st + 1 \<rparr>))
              (activeListingIds @ [listingId result]) db1)"

text \<open>
  The \<^verbatim>\<open>try\<close> block of \<open>runScrape\<close>: the loop, then \<open>markInactiveListings\<close> (which
  sends no statement when \<^verbatim>\<open>activeIds\<close> is empty), then \<open>completeScrapeRun\<close>.
  \<open>scraped\<close> is what \<^verbatim>\<open>scraper.scrape\<close> gave: the listings, or the error it threw.
  \<open>Inl\<close> is the error that reaches the \<^verbatim>\<open>catch\<close>, with the store at that moment.
\<close>

definition tryScrape ::
  "store_link \<Rightarrow> (string \<Rightarrow> (real \<times> real) option) \<Rightarrow> clock \<Rightarrow> error + snapshot list \<Rightarrow> int
     \<Rightarrow> database \<Rightarrow> (error \<times> database) + (stats \<times> database)" where
  "tryScrape link geocodeAddress clk scraped runId db1 =
     (case scraped of
        Inl err \<Rightarrow> Inl (err, db1)
      | Inr batch \<Rightarrow>
          (case saveListingsOn link geocodeAddress clk batch
                  \<lparr> found = 0, new = 0, updated = 0, priceChanges = 0 \<rparr> [] db1 of
             Inl failure \<Rightarrow> Inl failure
           | Inr (st, activeListingIds, db2) \<Rightarrow>
               if \<not> retire_ok link \<and> length activeListingIds \<noteq> 0
               then Inl (ConnectionFailure, db2)
               else if \<not> complete_ok link
               then Inl (ConnectionFailure,
                         markInactiveListings (retired_at clk) activeListingIds db2)
               else Inr (st,
                         completeScrapeRun (completed_at clk) runId st
                           (markInactiveListings (retired_at clk) activeListingIds db2))))"

text \<open>
  One pass. \<open>startScrapeRun\<close> runs before the \<^verbatim>\<open>try\<close>: its error ends the pass
  with nothing written. The \<^verbatim>\<open>catch\<close> awaits \<open>failScrapeRun\<close> and throws the
  error again; when \<open>failScrapeRun\<close> itself throws, that error is the one the pass ends
  with. The result is the statistics returned or the error thrown, and the store as the
  pass leaves it.
\<close>

definition runScrapeOn ::
  "store_link \<Rightarrow> (string \<Rightarrow> (real \<times> real) option) \<Rightarrow> clock \<Rightarrow> error + snapshot list
     \<Rightarrow> database \<Rightarrow> (error + stats) \<times> database" where
  "runScrapeOn link geocodeAddress clk scraped db =
     (if \<not> start_ok link then (Inl ConnectionFailure, db)
      else
        (let (runId, db1) = startScrapeRun (started_at clk) db
         in case tryScrape link geocodeAddress clk scraped runId db1 of
              Inl (err, db2) \<Rightarrow>
                if fail_ok link
                then (Inl err, failScrapeRun (failed_at clk) runId (message err) db2)
                else (Inl ConnectionFailure, db2)
            | Inr (st, db2) \<Rightarrow> (Inr st, db2)))"

text \<open>The loop and the pass on a store that every statement reaches.\<close>

definition saveListings ::
  "(string \<Rightarrow> (real \<times> real) option) \<Rightarrow> clock \<Rightarrow> snapshot list \<Rightarrow> stats \<Rightarrow> int list \<Rightarrow> database
     \<Rightarrow> (error \<times> database) + (stats \<times> int list \<times> database)" where
  "saveListings = saveListingsOn reachable"

definition runScrape ::
  "(string \<Rightarrow> (real \<times> real) option) \<Rightarrow> clock \<Rightarrow> error + snapshot list \<Rightarrow> database
     \<Rightarrow> (error + stats) \<times> database" where
  "runScrape = runScrapeOn reachable"

section \<open>Consistent stores\<close>

text \<open>
  What the schema enforces on \<^verbatim>\<open>listings\<close>: the primary key and the \<^verbatim>\<open>UNIQUE\<close>
  source URL, ids drawn from the sequence, and prices that fit \<^verbatim>\<open>INTEGER\<close>.
\<close>

definition consistent :: "database \<Rightarrow> bool" where
  "consistent db =
     (distinct (map l_id (listings db)) \<and> distinct (map l_realtor_url (listings db))
      \<and> (\<forall>l \<in> set (listings db). l_id l \<le> listings_id_seq db \<and> int4 (l_price l)))"

definition empty_database :: database where
  "empty_database =
     \<lparr> listings = [], price_history = [], users = [], saved_searches = [], favorites = [],
       alerts = [], scrape_runs = [],
       listings_id_seq = 0, price_history_id_seq = 0, alerts_id_seq = 0,
       scrape_runs_id_seq = 0 \<rparr>"

text \<open>
  What the extractor's loop maintains while every listing has a truthy \<^verbatim>\<open>detailUrl\<close>:
  no URL twice among the listings kept, and \<open>seenUrls\<close> holding exactly their URLs.
\<close>

definition deduped :: "snapshot list \<times> string set \<Rightarrow> bool" where
  "deduped acc \<longleftrightarrow> distinct (map detailUrl (fst acc))
     \<and> (\<forall>d \<in> set (fst acc). truthy_str (detailUrl d))
     \<and> snd acc = {u. Some u \<in> detailUrl ` set (fst acc)}"

section \<open>Sample data\<close>

text \<open>A snapshot as the extractor delivers it, and the store that holds only the listing
  made from it at time 1000, with its initial price point.\<close>

definition house :: snapshot where
  "house =
     \<lparr> price = Some 500000, street = Some ''12 Main St'', town = Some ''Guelph'',
       province = Some ''Ontario'', beds = Some 3, baths = Some 2, sqft = Some 1500,
       listedAt = None, detailUrl = Some ''/real-estate/1'', imageUrls = Some [''1.jpg''],
       lat = None, lng = None \<rparr>"

definition house_row :: listing where
  "house_row =
     \<lparr> l_id = 1, l_realtor_url = ''/real-estate/1'', l_price = Some 500000,
       l_street = ''12 Main St'', l_town = Some ''Guelph'', l_province = Some ''Ontario'',
       l_beds = Some 3, l_baths = Some 2, l_sqft = Some 1500, l_lat = None, l_lng = None,
       l_image_urls = Some [''1.jpg''], l_listed_at = None, l_first_seen_at = 1000,
       l_last_seen_at = 1000, l_is_active = True, l_created_at = 1000,
       l_updated_at = 1000 \<rparr>"

definition house_db :: database where
  "house_db =
     empty_database
       \<lparr> listings := [house_row],
         price_history :=
           [\<lparr> ph_id = 1, ph_listing_id = 1, ph_price = 500000, ph_recorded_at = 1000 \<rparr>],
         listings_id_seq := 1,
         price_history_id_seq := 1 \<rparr>"

text \<open>A second snapshot, of another listing.\<close>

definition cottage :: snapshot where
  "cottage =
     \<lparr> price = Some 300000, street = Some ''7 Lake Rd'', town = None, province = None,
       beds = Some 2, baths = Some 1, sqft = None, listedAt = None,
       detailUrl = Some ''/real-estate/2'', imageUrls = Some [], lat = None, lng = None \<rparr>"

text \<open>A snapshot whose card shows a price beyond the range of \<^verbatim>\<open>INTEGER\<close>:
  \<^verbatim>\<open>parseInt\<close> reads it as it stands.\<close>

definition mansion :: snapshot where
  "mansion =
     \<lparr> price = Some 9999999999, street = Some ''1 Palace Way'', town = None, province = None,
       beds = Some 9, baths = Some 9, sqft = None, listedAt = None,
       detailUrl = Some ''/real-estate/3'', imageUrls = Some [], lat = None, lng = None \<rparr>"

text \<open>A geocoder that finds nothing, and a clock.\<close>

definition no_geocoder :: "string \<Rightarrow> (real \<times> real) option" where
  "no_geocoder address = None"

definition pass_clock :: "timestamp \<Rightarrow> clock" where
  "pass_clock t0 =
     \<lparr> started_at = t0, upsert_at = (\<lambda>i. t0 + 1 + int i), retired_at = t0 + 1000,
       completed_at = t0 + 1001, failed_at = t0 + 1002 \<rparr>"

text \<open>A store that is lost from the \<open>k\<close>-th snapshot on and stays lost, and a store
  that only the completion statement does not reach.\<close>

definition outage_from :: "nat \<Rightarrow> store_link" where
  "outage_from k =
     \<lparr> start_ok = True, upsert_ok = (\<lambda>i. i < k), retire_ok = False, complete_ok = False,
       fail_ok = False \<rparr>"

definition outage_at_completion :: store_link where
  "outage_at_completion = reachable\<lparr> complete_ok := False \<rparr>"

text \<open>A store with the run record of a pass that was started at time 1000 and never
  closed.\<close>

definition abandoned_db :: database where
  "abandoned_db = snd (startScrapeRun 1000 empty_database)"

text \<open>A user who has favourited the listing of \<open>house_db\<close> and owns a saved search
  without filters, with alerts enabled.\<close>

definition watched_db :: database where
  "watched_db =
     house_db
       \<lparr> users :=
           [\<lparr> u_id = 7, u_clerk_id = ''clerk_7'', u_email = None, u_name = None,
              u_avatar_url = None, u_created_at = 500, u_updated_at = 500 \<rparr>],
         saved_searches :=
           [\<lparr> ss_id = 3, ss_user_id = 7, ss_name = ''any'', ss_min_price = None,
              ss_max_price = None, ss_min_beds = None, ss_min_baths = None, ss_towns = None,
              ss_provinces = None, ss_lat = None, ss_lng = None, ss_radius_km = None,
              ss_alerts_enabled = True, ss_created_at = 600, ss_updated_at = 600 \<rparr>],
         favorites :=
           [\<lparr> f_id = 1, f_user_id = 7, f_listing_id = 1, f_notes = None, f_rating = None,
              f_created_at = 1500, f_updated_at = 1500 \<rparr>] \<rparr>"

section \<open>What one upsert does\<close>

text \<open>The two branches of \<open>upsertListing\<close>, each as one equation.\<close>

lemma select_by_url_map:
  assumes "\<And>l. l_realtor_url (f l) = l_realtor_url l"
  shows "select_by_url url (db\<lparr>listings := map f (listings db)\<rparr>) = map f (select_by_url url db)"
  using assms by (cases url) (simp_all add: select_by_url_def filter_map comp_def)

lemma select_by_url_price_history [simp]:
  "select_by_url url (insert_price_history now lid p db) = select_by_url url db"
  by (simp add: select_by_url_def insert_price_history_def Let_def split: option.splits)

lemma upsertListing_existing:
  assumes "select_by_url (detailUrl data) db = existing # others" and "int4 (price data)"
  shows "upsertListing now data db =
     Inr (\<lparr> listingId = l_id existing, isNew = False,
            priceChanged = (truthy (price data) \<and> truthy (l_price existing) \<and> price data \<noteq> l_price existing),
            oldPrice = l_price existing, newPrice = price data \<rparr>,
          (if truthy (price data) \<and> truthy (l_price existing) \<and> price data \<noteq> l_price existing
           then insert_price_history now (l_id existing) (the (price data))
           else id)
          (db\<lparr> listings :=
             map (\<lambda>l. if l_id l = l_id existing
                      then l\<lparr> l_price := price data,
                              l_last_seen_at := now,
                              l_updated_at := now,
                              l_is_active := True,
                              l_image_urls :=
                                (case imageUrls data of None \<Rightarrow> l_image_urls l | Some i \<Rightarrow> Some i) \<rparr>
                      else l)
                 (listings db) \<rparr>))"
  using assms by (simp add: upsertListing_def update_listing_def truthy_def split: option.splits)

lemma upsertListing_new:
  assumes "select_by_url (detailUrl data) db = []"
    and "detailUrl data = Some url" and "street data = Some st"
    and "int4 (price data)" and "int4 (beds data)" and "int4 (baths data)" and "int4 (sqft data)"
  shows "upsertListing now data db =
     Inr (\<lparr> listingId = listings_id_seq db + 1, isNew = True, priceChanged = False,
            oldPrice = None, newPrice = price data \<rparr>,
          (if truthy (price data)
           then insert_price_history now (listings_id_seq db + 1) (the (price data))
           else id)
          (db\<lparr> listings := listings db @
                 [\<lparr> l_id = listings_id_seq db + 1,
                          l_realtor_url = url,
                          l_price = price data,
                          l_street = st,
                          l_town = town data,
                          l_province = province data,
                          l_beds = beds data,
                          l_baths = baths data,
                          l_sqft = sqft data,
                          l_lat = (if truthy (lat data) then lat data else None),
                          l_lng = (if truthy (lng data) then lng data else None),
                          l_image_urls =
                            (case imageUrls data of None \<Rightarrow> Some [] | Some imgs \<Rightarrow> Some imgs),
                          l_listed_at = listedAt data,
                          l_first_seen_at = now,
                          l_last_seen_at = now,
                          l_is_active = True,
                          l_created_at = now,
                          l_updated_at = now \<rparr>],
               listings_id_seq := listings_id_seq db + 1 \<rparr>))"
  using assms by (simp add: upsertListing_def insert_listing_def truthy_def Let_def split: option.splits)

lemma select_by_url_Nil_iff:
  "select_by_url (Some u) db = [] \<longleftrightarrow> u \<notin> l_realtor_url ` set (listings db)"
  by (auto simp: select_by_url_def filter_empty_conv)

lemma select_by_url_updated:
  assumes "select_by_url url db = existing # others"
    and "\<And>l. l_realtor_url (f l) = l_realtor_url l"
  shows "select_by_url url (db\<lparr>listings := map f (listings db)\<rparr>) = f existing # map f others"
  by (simp add: select_by_url_map [of f, OF assms(2)] assms(1))

lemma select_by_url_after_update:
  assumes "select_by_url (detailUrl data) db = existing # others" and "int4 (price data)"
  shows "\<exists>r db' l others'. upsertListing now data db = Inr (r, db')
     \<and> select_by_url (detailUrl data) db' = l # others'
     \<and> l = existing\<lparr> l_price := price data, l_last_seen_at := now, l_updated_at := now,
              l_is_active := True,
              l_image_urls := (case imageUrls data of None \<Rightarrow> l_image_urls existing | Some i \<Rightarrow> Some i) \<rparr>
     \<and> isNew r = False
     \<and> priceChanged r = (truthy (price data) \<and> truthy (l_price existing) \<and> price data \<noteq> l_price existing)
     \<and> oldPrice r = l_price existing
     \<and> price_history db' = price_history db @
          (if truthy (price data) \<and> truthy (l_price existing) \<and> price data \<noteq> l_price existing
           then [\<lparr> ph_id = price_history_id_seq db + 1, ph_listing_id = l_id existing,
                   ph_price = the (price data), ph_recorded_at = now \<rparr>] else [])"
proof -
  have ph: "price_history (insert_price_history t i p d) =
      price_history d @ [\<lparr> ph_id = price_history_id_seq d + 1, ph_listing_id = i,
                            ph_price = p, ph_recorded_at = t \<rparr>]" for t i p d
    by (simp add: insert_price_history_def Let_def)
  show ?thesis
    unfolding upsertListing_existing [OF assms]
    by (simp add: select_by_url_updated [OF assms(1)] ph)
qed

text \<open>The image list after an upsert onto an existing listing: kept when the snapshot's
  \<open>imageUrls\<close> is null or undefined, replaced by any array, also the empty one.\<close>

lemma upsertListing_images:
  assumes "select_by_url (detailUrl data) db = existing # others" and "int4 (price data)"
  shows "\<exists>r db' l others'. upsertListing now data db = Inr (r, db')
     \<and> select_by_url (detailUrl data) db' = l # others'
     \<and> l_id l = l_id existing
     \<and> (imageUrls data = None \<longrightarrow> l_image_urls l = l_image_urls existing)
     \<and> (\<forall>imgs. imageUrls data = Some imgs \<longrightarrow> l_image_urls l = Some imgs)
     \<and> l_price l = price data \<and> l_last_seen_at l = now \<and> l_updated_at l = now \<and> l_is_active l"
  using select_by_url_after_update [OF assms, of now] by auto

section \<open>Upserts on a consistent store\<close>

lemma insert_listing_Inr:
  assumes "insert_listing now data db = Inr x"
  shows "int4 (price data) \<and> int4 (beds data) \<and> int4 (baths data) \<and> int4 (sqft data)
     \<and> (\<exists>url. detailUrl data = Some url) \<and> (\<exists>st. street data = Some st)"
  using assms unfolding insert_listing_def
  by (simp split: if_splits option.splits)

lemma update_listing_Inr:
  assumes "update_listing now lid p imgs db = Inr x"
  shows "int4 p"
  using assms unfolding update_listing_def by (simp split: if_splits)

lemma upsertListing_cases:
  assumes "upsertListing now data db = Inr (r, db')"
  obtains (inserted) url st where
      "select_by_url (detailUrl data) db = []" "detailUrl data = Some url" "street data = Some st"
      "int4 (price data)" "int4 (beds data)" "int4 (baths data)" "int4 (sqft data)"
    | (updated) existing others where
      "select_by_url (detailUrl data) db = existing # others" "int4 (price data)"
proof (cases "select_by_url (detailUrl data) db")
  case Nil
  with assms obtain x where "insert_listing now data db = Inr x"
    by (cases "insert_listing now data db") (simp_all add: upsertListing_def)
  from insert_listing_Inr [OF this] Nil inserted show ?thesis by blast
next
  case (Cons existing others)
  with assms obtain x where
    "update_listing now (l_id existing) (price data) (imageUrls data) db = Inr x"
    by (cases "update_listing now (l_id existing) (price data) (imageUrls data) db")
       (simp_all add: upsertListing_def)
  from update_listing_Inr [OF this] Cons updated show ?thesis by blast
qed

lemma select_by_url_at_most_one:
  assumes "distinct (map l_realtor_url (listings db))"
  shows "select_by_url url db = [] \<or> (\<exists>l. select_by_url url db = [l])"
proof (cases url)
  case None
  then show ?thesis by (simp add: select_by_url_def)
next
  case (Some u)
  have "distinct (map l_realtor_url xs) \<Longrightarrow>
        filter (\<lambda>l. l_realtor_url l = u) xs = [] \<or> (\<exists>l. filter (\<lambda>l. l_realtor_url l = u) xs = [l])"
    for xs :: "listing list"
  proof (induction xs)
    case Nil
    then show ?case by simp
  next
    case (Cons x xs)
    then show ?case
      by (auto simp: filter_empty_conv image_iff)
  qed
  with assms Some show ?thesis by (simp add: select_by_url_def)
qed

lemma select_by_url_set:
  "l \<in> set (select_by_url url db) \<longleftrightarrow> l \<in> set (listings db) \<and> url = Some (l_realtor_url l)"
  by (cases url) (auto simp: select_by_url_def)

lemma consistent_upsertListing:
  assumes "consistent db" and "upsertListing now data db = Inr (r, db')"
  shows "consistent db'"
  using assms(2)
proof (cases rule: upsertListing_cases)
  case (inserted url st)
  have fresh: "url \<notin> l_realtor_url ` set (listings db)"
    using inserted(1,2) by (simp add: select_by_url_Nil_iff)
  have ids: "\<forall>l \<in> set (listings db). l_id l \<noteq> listings_id_seq db + 1"
    using assms(1) by (auto simp: consistent_def)
  from assms(2) have "db' = (if truthy (price data)
           then insert_price_history now (listings_id_seq db + 1) (the (price data))
           else id)
          (db\<lparr> listings := listings db @
                 [\<lparr> l_id = listings_id_seq db + 1,
                          l_realtor_url = url,
                          l_price = price data,
                          l_street = st,
                          l_town = town data,
                          l_province = province data,
                          l_beds = beds data,
                          l_baths = baths data,
                          l_sqft = sqft data,
                          l_lat = (if truthy (lat data) then lat data else None),
                          l_lng = (if truthy (lng data) then lng data else None),
                          l_image_urls =
                            (case imageUrls data of None \<Rightarrow> Some [] | Some imgs \<Rightarrow> Some imgs),
                          l_listed_at = listedAt data,
                          l_first_seen_at = now,
                          l_last_seen_at = now,
                          l_is_active = True,
                          l_created_at = now,
                          l_updated_at = now \<rparr>],
               listings_id_seq := listings_id_seq db + 1 \<rparr>)"
    unfolding upsertListing_new [OF inserted] by simp
  then show ?thesis
    using assms(1) fresh ids inserted(4)
    by (auto simp: consistent_def insert_price_history_def Let_def image_iff)
next
  case (updated existing others)
  define f :: "listing \<Rightarrow> listing" where "f = (\<lambda>l. if l_id l = l_id existing
                      then l\<lparr> l_price := price data,
                              l_last_seen_at := now,
                              l_updated_at := now,
                              l_is_active := True,
                              l_image_urls :=
                                (case imageUrls data of None \<Rightarrow> l_image_urls l | Some i \<Rightarrow> Some i) \<rparr>
                      else l)"
  have f_id: "l_id \<circ> f = l_id" and f_url: "l_realtor_url \<circ> f = l_realtor_url"
    by (auto simp: f_def fun_eq_iff)
  have f_price: "int4 (l_price (f l))" if "int4 (l_price l)" for l
    using that updated(2) by (simp add: f_def)
  from assms(2) have "listings db' = map f (listings db)"
    and "listings_id_seq db' = listings_id_seq db"
    unfolding upsertListing_existing [OF updated] f_def
    by (auto simp: insert_price_history_def Let_def)
  moreover have "l_id (f l) = l_id l" for l
    by (simp add: f_def)
  ultimately show ?thesis
    using assms(1) f_price by (auto simp: consistent_def f_id f_url)
qed

lemma select_by_url_listings_cong:
  "listings db' = listings db \<Longrightarrow> select_by_url url db' = select_by_url url db"
  by (cases url) (simp_all add: select_by_url_def)

lemma upsertListing_stores:
  assumes "consistent db" and "upsertListing now data db = Inr (r, db')"
  shows "\<exists>u l'. detailUrl data = Some u \<and> select_by_url (Some u) db' = [l']
            \<and> l_price l' = price data \<and> l_is_active l' \<and> l_last_seen_at l' = now"
  using assms(2)
proof (cases rule: upsertListing_cases)
  case (inserted url st)
  have "select_by_url (Some url) db = []" using inserted(1,2) by simp
  then have none: "filter (\<lambda>l. l_realtor_url l = url) (listings db) = []"
    by (simp add: select_by_url_def)
  from assms(2) have "\<exists>l'. listings db' = listings db @ [l'] \<and> l_realtor_url l' = url
      \<and> l_price l' = price data \<and> l_is_active l' \<and> l_last_seen_at l' = now"
    unfolding upsertListing_new [OF inserted]
    by (auto simp: insert_price_history_def Let_def)
  then obtain l' where "listings db' = listings db @ [l']" "l_realtor_url l' = url"
      "l_price l' = price data" "l_is_active l'" "l_last_seen_at l' = now" by blast
  with none inserted(2) show ?thesis
    by (simp add: select_by_url_def)
next
  case (updated existing others)
  from updated(1) obtain u where u: "detailUrl data = Some u"
    by (cases "detailUrl data") (simp_all add: select_by_url_def)
  from assms(1) have "distinct (map l_realtor_url (listings db))"
    by (simp add: consistent_def)
  from consistent_upsertListing [OF assms] have "distinct (map l_realtor_url (listings db'))"
    by (simp add: consistent_def)
  from select_by_url_at_most_one [OF this, of "Some u"]
  have one: "select_by_url (Some u) db' = l # ls \<Longrightarrow> ls = []" for l ls by auto
  from select_by_url_after_update [OF updated, of now] assms(2) u
  obtain l' others' where "select_by_url (Some u) db' = l' # others'"
    and "l_price l' = price data \<and> l_is_active l' \<and> l_last_seen_at l' = now"
    by auto
  with one [of l' others'] u show ?thesis by auto
qed

lemma upsertListing_other_urls:
  assumes "consistent db" and "upsertListing now data db = Inr (r, db')"
    and "Some v \<noteq> detailUrl data"
  shows "select_by_url (Some v) db' = select_by_url (Some v) db"
  using assms(2)
proof (cases rule: upsertListing_cases)
  case (inserted url st)
  from assms(2) have "\<exists>l'. listings db' = listings db @ [l'] \<and> l_realtor_url l' = url"
    unfolding upsertListing_new [OF inserted]
    by (auto simp: insert_price_history_def Let_def)
  with assms(3) inserted(2) show ?thesis
    by (auto simp: select_by_url_def)
next
  case (updated existing others)
  define f :: "listing \<Rightarrow> listing" where "f = (\<lambda>l. if l_id l = l_id existing
                      then l\<lparr> l_price := price data,
                              l_last_seen_at := now,
                              l_updated_at := now,
                              l_is_active := True,
                              l_image_urls :=
                                (case imageUrls data of None \<Rightarrow> l_image_urls l | Some i \<Rightarrow> Some i) \<rparr>
                      else l)"
  have f_url: "l_realtor_url (f l) = l_realtor_url l" for l
    by (simp add: f_def)
  from assms(2) have "listings db' = listings (db\<lparr>listings := map f (listings db)\<rparr>)"
    unfolding upsertListing_existing [OF updated] f_def
    by (auto simp: insert_price_history_def Let_def)
  then have "select_by_url (Some v) db' = select_by_url (Some v) (db\<lparr>listings := map f (listings db)\<rparr>)"
    by (rule select_by_url_listings_cong)
  also have "\<dots> = map f (select_by_url (Some v) db)"
    by (rule select_by_url_map) (rule f_url)
  also have "\<dots> = select_by_url (Some v) db"
  proof (rule map_idI)
    fix l assume l: "l \<in> set (select_by_url (Some v) db)"
    then have lin: "l \<in> set (listings db)" and lurl: "l_realtor_url l = v"
      by (auto simp: select_by_url_set)
    have "existing \<in> set (select_by_url (detailUrl data) db)"
      using updated(1) by simp
    then have ein: "existing \<in> set (listings db)"
      and eurl: "detailUrl data = Some (l_realtor_url existing)"
      by (auto simp: select_by_url_set)
    from lurl eurl assms(3) have "l \<noteq> existing" by auto
    moreover from assms(1) have "inj_on l_id (set (listings db))"
      by (simp add: consistent_def distinct_map)
    ultimately have "l_id l \<noteq> l_id existing"
      using lin ein by (auto dest: inj_onD)
    then show "f l = l" by (simp add: f_def)
  qed
  finally show ?thesis .
qed

text \<open>An upsert onto a listing stored with the snapshot's own price.\<close>

lemma upsertListing_same_price:
  assumes "consistent db" and "select_by_url (detailUrl data) db = [l]"
    and "l_price l = price data"
  shows "\<exists>r db'. upsertListing now data db = Inr (r, db') \<and> \<not> isNew r \<and> \<not> priceChanged r
           \<and> price_history db' = price_history db"
proof -
  have "l \<in> set (select_by_url (detailUrl data) db)" using assms(2) by simp
  then have "l \<in> set (listings db)" by (simp add: select_by_url_set)
  with assms(1,3) have "int4 (price data)" by (auto simp: consistent_def)
  from select_by_url_after_update [OF assms(2) this, of now] assms(3)
  show ?thesis by auto
qed

text \<open>What an upsert leaves alone.\<close>

lemma upsertListing_frame:
  assumes "upsertListing now data db = Inr (r, db')"
  shows "alerts db' = alerts db \<and> scrape_runs db' = scrape_runs db
     \<and> scrape_runs_id_seq db' = scrape_runs_id_seq db
     \<and> users db' = users db \<and> favorites db' = favorites db
     \<and> saved_searches db' = saved_searches db"
  using assms(1)
proof (cases rule: upsertListing_cases)
  case (inserted url st)
  from assms show ?thesis
    unfolding upsertListing_new [OF inserted]
    by (auto simp: insert_price_history_def Let_def)
next
  case (updated existing others)
  from assms show ?thesis
    unfolding upsertListing_existing [OF updated]
    by (auto simp: insert_price_history_def Let_def)
qed

lemma upsertListing_keeps_active:
  assumes "upsertListing now data db = Inr (r, db')" and "l \<in> set (listings db)"
  shows "\<exists>l' \<in> set (listings db'). l_id l' = l_id l \<and> (l_is_active l \<longrightarrow> l_is_active l')"
  using assms(1)
proof (cases rule: upsertListing_cases)
  case (inserted url st)
  from assms(1) have "\<exists>l'. listings db' = listings db @ [l']"
    unfolding upsertListing_new [OF inserted]
    by (auto simp: insert_price_history_def Let_def)
  with assms(2) show ?thesis by auto
next
  case (updated existing others)
  define f :: "listing \<Rightarrow> listing" where "f = (\<lambda>l. if l_id l = l_id existing
                      then l\<lparr> l_price := price data,
                              l_last_seen_at := now,
                              l_updated_at := now,
                              l_is_active := True,
                              l_image_urls :=
                                (case imageUrls data of None \<Rightarrow> l_image_urls l | Some i \<Rightarrow> Some i) \<rparr>
                      else l)"
  from assms(1) have "listings db' = map f (listings db)"
    unfolding upsertListing_existing [OF updated] f_def
    by (auto simp: insert_price_history_def Let_def)
  moreover have "l_id (f l) = l_id l \<and> (l_is_active l \<longrightarrow> l_is_active (f l))"
    by (simp add: f_def)
  ultimately show ?thesis using assms(2) by auto
qed

section \<open>The loop over a batch\<close>

text \<open>On a reachable store the loop has the equations of the loop alone.\<close>

lemma saveListings_Nil [simp]:
  "saveListings g clk [] st ids db = Inr (st, ids, db)"
  by (simp add: saveListings_def)

lemma saveListings_Cons [simp]:
  "saveListings g clk (listing # rest) st ids db =
     (case upsertListing (upsert_at clk (found st)) (geocodeListing g listing) db of
        Inl err \<Rightarrow> Inl (err, db)
      | Inr (result, db1) \<Rightarrow>
          saveListings g clk rest
            (count_result result (st\<lparr> found := found st + 1 \<rparr>))
            (ids @ [listingId result]) db1)"
proof -
  have "upsert_ok reachable (found st)" by (simp add: reachable_def)
  then show ?thesis
    by (simp add: saveListings_def split: sum.splits)
qed

lemma geocodeListing_fields [simp]:
  "detailUrl (geocodeListing g d) = detailUrl d" "price (geocodeListing g d) = price d"
  by (simp_all add: geocodeListing_def split: option.splits)

lemma found_count_result [simp]: "found (count_result r st) = found st"
  by (simp add: count_result_def)


lemma saveListings_found:
  "saveListings g clk xs st ids db = Inr (st', ids', db') \<Longrightarrow> found st' = found st + length xs"
  by (induction xs arbitrary: st ids db) (auto split: sum.splits)

lemma saveListings_Inl:
  "saveListings g clk xs st ids db = Inl (e, dbf) \<Longrightarrow>
     \<exists>pre d post st1 ids1. xs = pre @ d # post
        \<and> saveListings g clk pre st ids db = Inr (st1, ids1, dbf)
        \<and> upsertListing (upsert_at clk (found st1)) (geocodeListing g d) dbf = Inl e"
proof (induction xs arbitrary: st ids db)
  case Nil
  then show ?case by simp
next
  case (Cons x xs)
  show ?case
  proof (cases "upsertListing (upsert_at clk (found st)) (geocodeListing g x) db")
    case (Inl err)
    with Cons.prems have "err = e" "dbf = db" by simp_all
    with Inl have "x # xs = [] @ x # xs
        \<and> saveListings g clk [] st ids db = Inr (st, ids, dbf)
        \<and> upsertListing (upsert_at clk (found st)) (geocodeListing g x) dbf = Inl e"
      by simp
    then show ?thesis by blast
  next
    case (Inr res)
    obtain r db1 where res: "res = (r, db1)" by (cases res)
    with Inr Cons.prems have
      "saveListings g clk xs (count_result r (st\<lparr>found := found st + 1\<rparr>))
         (ids @ [listingId r]) db1 = Inl (e, dbf)"
      by simp
    from Cons.IH [OF this] obtain pre d post st1 ids1 where
      "xs = pre @ d # post"
      "saveListings g clk pre (count_result r (st\<lparr>found := found st + 1\<rparr>))
         (ids @ [listingId r]) db1 = Inr (st1, ids1, dbf)"
      "upsertListing (upsert_at clk (found st1)) (geocodeListing g d) dbf = Inl e"
      by blast
    with Inr res have "x # xs = (x # pre) @ d # post
        \<and> saveListings g clk (x # pre) st ids db = Inr (st1, ids1, dbf)
        \<and> upsertListing (upsert_at clk (found st1)) (geocodeListing g d) dbf = Inl e"
      by simp
    then show ?thesis by blast
  qed
qed

lemma saveListings_stores:
  assumes "consistent db" and "distinct (map detailUrl xs)"
    and "saveListings g clk xs st ids db = Inr (st', ids', db')"
  shows "consistent db'
     \<and> (\<forall>i < length xs. \<exists>l. select_by_url (detailUrl (xs ! i)) db' = [l]
            \<and> l_price l = price (xs ! i) \<and> l_is_active l
            \<and> l_last_seen_at l = upsert_at clk (found st + i))
     \<and> (\<forall>v. Some v \<notin> set (map detailUrl xs)
            \<longrightarrow> select_by_url (Some v) db' = select_by_url (Some v) db)"
  using assms
proof (induction xs arbitrary: st ids db)
  case Nil
  then show ?case by simp
next
  case (Cons x xs)
  from Cons.prems(3) obtain r db1 where
    up: "upsertListing (upsert_at clk (found st)) (geocodeListing g x) db = Inr (r, db1)"
    and rest: "saveListings g clk xs (count_result r (st\<lparr>found := found st + 1\<rparr>))
         (ids @ [listingId r]) db1 = Inr (st', ids', db')"
    by (auto split: sum.splits)
  have c1: "consistent db1"
    by (rule consistent_upsertListing [OF Cons.prems(1) up])
  from Cons.prems(2) have dxs: "distinct (map detailUrl xs)"
    and xnew: "detailUrl x \<notin> set (map detailUrl xs)" by simp_all
  from Cons.IH [OF c1 dxs rest] have
    c': "consistent db'"
    and ih: "\<And>i. i < length xs \<Longrightarrow> \<exists>l. select_by_url (detailUrl (xs ! i)) db' = [l]
            \<and> l_price l = price (xs ! i) \<and> l_is_active l
            \<and> l_last_seen_at l = upsert_at clk (found st + 1 + i)"
    and others: "\<And>v. Some v \<notin> set (map detailUrl xs)
            \<Longrightarrow> select_by_url (Some v) db' = select_by_url (Some v) db1"
    by simp_all
  from upsertListing_stores [OF Cons.prems(1) up] obtain u l' where
    u: "detailUrl x = Some u" and l': "select_by_url (Some u) db1 = [l']"
      "l_price l' = price x" "l_is_active l'" "l_last_seen_at l' = upsert_at clk (found st)"
    by auto
  have head: "\<exists>l. select_by_url (detailUrl x) db' = [l]
            \<and> l_price l = price x \<and> l_is_active l
            \<and> l_last_seen_at l = upsert_at clk (found st)"
    using others [of u] xnew u l' by simp
  have "\<exists>l. select_by_url (detailUrl ((x # xs) ! i)) db' = [l]
            \<and> l_price l = price ((x # xs) ! i) \<and> l_is_active l
            \<and> l_last_seen_at l = upsert_at clk (found st + i)"
    if "i < length (x # xs)" for i
  proof (cases i)
    case 0
    with head show ?thesis by simp
  next
    case (Suc j)
    with that ih [of j] show ?thesis by simp
  qed
  moreover have "select_by_url (Some v) db' = select_by_url (Some v) db"
    if "Some v \<notin> set (map detailUrl (x # xs))" for v
  proof -
    from that have "Some v \<notin> set (map detailUrl xs)" and "Some v \<noteq> detailUrl (geocodeListing g x)"
      by auto
    with others [of v] upsertListing_other_urls [OF Cons.prems(1) up, of v]
    show ?thesis by simp
  qed
  ultimately show ?case using c' by blast
qed

lemma saveListings_again:
  assumes "consistent db" and "distinct (map detailUrl xs)"
    and "\<forall>d \<in> set xs. \<exists>l. select_by_url (detailUrl d) db = [l] \<and> l_price l = price d"
  shows "\<exists>ids' db'. saveListings g clk xs st ids db =
            Inr (st\<lparr>found := found st + length xs, updated := updated st + length xs\<rparr>, ids', db')
          \<and> price_history db' = price_history db"
  using assms
proof (induction xs arbitrary: st ids db)
  case Nil
  then show ?case by simp
next
  case (Cons x xs)
  from Cons.prems(3) obtain l where
    l: "select_by_url (detailUrl (geocodeListing g x)) db = [l]"
       "l_price l = price (geocodeListing g x)" by auto
  from upsertListing_same_price [OF Cons.prems(1) l, of "upsert_at clk (found st)"]
  obtain r db1 where
    up: "upsertListing (upsert_at clk (found st)) (geocodeListing g x) db = Inr (r, db1)"
    and r: "\<not> isNew r" "\<not> priceChanged r" and h: "price_history db1 = price_history db"
    by blast
  have c1: "consistent db1"
    by (rule consistent_upsertListing [OF Cons.prems(1) up])
  from Cons.prems(2) have dxs: "distinct (map detailUrl xs)"
    and xnew: "detailUrl x \<notin> set (map detailUrl xs)" by simp_all
  have kept: "\<forall>d \<in> set xs. \<exists>l. select_by_url (detailUrl d) db1 = [l] \<and> l_price l = price d"
  proof
    fix d assume d: "d \<in> set xs"
    with Cons.prems(3) obtain l where l: "select_by_url (detailUrl d) db = [l]" "l_price l = price d"
      by auto
    then obtain v where v: "detailUrl d = Some v"
      by (cases "detailUrl d") (simp_all add: select_by_url_def)
    from d have "detailUrl d \<in> set (map detailUrl xs)" by simp
    with xnew v have "Some v \<noteq> detailUrl (geocodeListing g x)" by auto
    from upsertListing_other_urls [OF Cons.prems(1) up this] l v
    show "\<exists>l. select_by_url (detailUrl d) db1 = [l] \<and> l_price l = price d" by simp
  qed
  from r have cr: "count_result r (st\<lparr>found := found st + 1\<rparr>)
      = st\<lparr>found := found st + 1, updated := updated st + 1\<rparr>"
    by (simp add: count_result_def)
  from Cons.IH [OF c1 dxs kept, of "st\<lparr>found := found st + 1, updated := updated st + 1\<rparr>"
      "ids @ [listingId r]"]
  show ?case using up cr h by auto
qed

section \<open>The statements around the loop\<close>

lemma startScrapeRun_frame [simp]:
  "fst (startScrapeRun t db) = scrape_runs_id_seq db + 1"
  "listings (snd (startScrapeRun t db)) = listings db"
  "listings_id_seq (snd (startScrapeRun t db)) = listings_id_seq db"
  "price_history (snd (startScrapeRun t db)) = price_history db"
  "alerts (snd (startScrapeRun t db)) = alerts db"
  by (simp_all add: startScrapeRun_def Let_def)

lemma completeScrapeRun_frame [simp]:
  "listings (completeScrapeRun t i st db) = listings db"
  "listings_id_seq (completeScrapeRun t i st db) = listings_id_seq db"
  "price_history (completeScrapeRun t i st db) = price_history db"
  "alerts (completeScrapeRun t i st db) = alerts db"
  by (simp_all add: completeScrapeRun_def)

lemma failScrapeRun_frame [simp]:
  "listings (failScrapeRun t i m db) = listings db"
  "listings_id_seq (failScrapeRun t i m db) = listings_id_seq db"
  "price_history (failScrapeRun t i m db) = price_history db"
  "alerts (failScrapeRun t i m db) = alerts db"
  by (simp_all add: failScrapeRun_def)

lemma markInactiveListings_frame [simp]:
  "listings_id_seq (markInactiveListings t ids db) = listings_id_seq db"
  "price_history (markInactiveListings t ids db) = price_history db"
  "alerts (markInactiveListings t ids db) = alerts db"
  by (simp_all add: markInactiveListings_def)

lemma consistent_cong:
  "listings db' = listings db \<Longrightarrow> listings_id_seq db' = listings_id_seq db
     \<Longrightarrow> consistent db' = consistent db"
  by (simp add: consistent_def)

lemma consistent_startScrapeRun [simp]:
  "consistent (snd (startScrapeRun t db)) = consistent db"
  by (rule consistent_cong) simp_all

lemma markInactiveListings_listings:
  "\<exists>f. listings (markInactiveListings t ids db) = map f (listings db)
       \<and> (\<forall>l. l_id (f l) = l_id l \<and> l_realtor_url (f l) = l_realtor_url l
               \<and> l_price (f l) = l_price l)"
proof (cases "length ids = 0")
  case True
  then have "listings (markInactiveListings t ids db) = map id (listings db)
      \<and> (\<forall>l::listing. l_id (id l) = l_id l \<and> l_realtor_url (id l) = l_realtor_url l
               \<and> l_price (id l) = l_price l)"
    by (simp add: markInactiveListings_def)
  then show ?thesis by blast
next
  case False
  define f :: "listing \<Rightarrow> listing" where
    "f = (\<lambda>l. if l_id l \<notin> set ids \<and> l_is_active l \<and> l_last_seen_at l < t - grace_window
              then l\<lparr> l_is_active := False, l_updated_at := t \<rparr> else l)"
  from False have "listings (markInactiveListings t ids db) = map f (listings db)"
    by (simp add: markInactiveListings_def f_def)
  moreover have "\<forall>l. l_id (f l) = l_id l \<and> l_realtor_url (f l) = l_realtor_url l
               \<and> l_price (f l) = l_price l"
    by (simp add: f_def)
  ultimately show ?thesis by blast
qed

lemma consistent_markInactiveListings:
  assumes "consistent db"
  shows "consistent (markInactiveListings t ids db)"
proof -
  from markInactiveListings_listings [of t ids db] obtain f where
    f: "listings (markInactiveListings t ids db) = map f (listings db)"
    and p: "\<And>l. l_id (f l) = l_id l" "\<And>l. l_realtor_url (f l) = l_realtor_url l"
      "\<And>l. l_price (f l) = l_price l"
    by auto
  from p have "l_id \<circ> f = l_id" "l_realtor_url \<circ> f = l_realtor_url"
    by (auto simp: fun_eq_iff)
  with assms f p show ?thesis
    by (auto simp: consistent_def)
qed

lemma markInactiveListings_stored_price:
  assumes "select_by_url url db = [l]" and "l_price l = p"
  shows "\<exists>l'. select_by_url url (markInactiveListings t ids db) = [l'] \<and> l_price l' = p"
proof -
  from markInactiveListings_listings [of t ids db] obtain f where
    f: "listings (markInactiveListings t ids db) = map f (listings db)"
    and p: "\<And>l. l_realtor_url (f l) = l_realtor_url l" "\<And>l. l_price (f l) = l_price l"
    by auto
  from f have "listings (markInactiveListings t ids db) = listings (db\<lparr>listings := map f (listings db)\<rparr>)"
    by simp
  then have "select_by_url url (markInactiveListings t ids db)
      = select_by_url url (db\<lparr>listings := map f (listings db)\<rparr>)"
    by (rule select_by_url_listings_cong)
  also have "\<dots> = map f (select_by_url url db)"
    by (rule select_by_url_map) (rule p(1))
  finally show ?thesis using assms p(2) by simp
qed

text \<open>The two ways a pass over a batch ends.\<close>

lemma runScrape_batch:
  "runScrape g clk (Inr batch) db =
     (case saveListings g clk batch \<lparr>found = 0, new = 0, updated = 0, priceChanges = 0\<rparr> []
             (snd (startScrapeRun (started_at clk) db)) of
        Inl (e, db2) \<Rightarrow>
          (Inl e, failScrapeRun (failed_at clk) (scrape_runs_id_seq db + 1) (message e) db2)
      | Inr (st, ids, db2) \<Rightarrow>
          (Inr st, completeScrapeRun (completed_at clk) (scrape_runs_id_seq db + 1) st
                     (markInactiveListings (retired_at clk) ids db2)))"
  by (simp add: runScrape_def runScrapeOn_def tryScrape_def saveListings_def reachable_def
      startScrapeRun_def Let_def split: sum.splits prod.splits)

lemma runScrape_no_data:
  "runScrape g clk (Inl e) db =
     (Inl e, failScrapeRun (failed_at clk) (scrape_runs_id_seq db + 1) (message e)
               (snd (startScrapeRun (started_at clk) db)))"
  by (simp add: runScrape_def runScrapeOn_def tryScrape_def reachable_def startScrapeRun_def
      Let_def)

lemma saveListings_frame:
  "saveListings g clk xs st ids db = Inr (st', ids', db') \<Longrightarrow>
     alerts db' = alerts db \<and> scrape_runs db' = scrape_runs db"
proof (induction xs arbitrary: st ids db)
  case Nil
  then show ?case by simp
next
  case (Cons x xs)
  from Cons.prems obtain r db1 where
    up: "upsertListing (upsert_at clk (found st)) (geocodeListing g x) db = Inr (r, db1)"
    and rest: "saveListings g clk xs (count_result r (st\<lparr>found := found st + 1\<rparr>))
         (ids @ [listingId r]) db1 = Inr (st', ids', db')"
    by (auto split: sum.splits)
  from Cons.IH [OF rest] upsertListing_frame [OF up] show ?case by simp
qed

lemma saveListings_keeps_active:
  "saveListings g clk xs st ids db = Inr (st', ids', db') \<Longrightarrow> l \<in> set (listings db) \<Longrightarrow>
     \<exists>l' \<in> set (listings db'). l_id l' = l_id l \<and> (l_is_active l \<longrightarrow> l_is_active l')"
proof (induction xs arbitrary: st ids db l)
  case Nil
  then show ?case by auto
next
  case (Cons x xs)
  from Cons.prems(1) obtain r db1 where
    up: "upsertListing (upsert_at clk (found st)) (geocodeListing g x) db = Inr (r, db1)"
    and rest: "saveListings g clk xs (count_result r (st\<lparr>found := found st + 1\<rparr>))
         (ids @ [listingId r]) db1 = Inr (st', ids', db')"
    by (auto split: sum.splits)
  from upsertListing_keeps_active [OF up Cons.prems(2)] obtain l1 where
    l1: "l1 \<in> set (listings db1)" "l_id l1 = l_id l" "l_is_active l \<longrightarrow> l_is_active l1"
    by blast
  from Cons.IH [OF rest l1(1)] l1(2,3) show ?case by auto
qed

lemma failScrapeRun_marks:
  assumes "run \<in> set (scrape_runs db)" and "sr_id run = i"
  shows "\<exists>run' \<in> set (scrape_runs (failScrapeRun t i m db)).
           sr_id run' = i \<and> sr_status run' = failed \<and> sr_error run' = Some m
           \<and> sr_finished_at run' = Some t"
proof -
  have "run\<lparr>sr_finished_at := Some t, sr_status := failed, sr_error := Some m\<rparr>
          \<in> set (scrape_runs (failScrapeRun t i m db))"
    using assms by (force simp: failScrapeRun_def)
  then show ?thesis
    by (rule rev_bexI) (simp add: assms(2))
qed

lemma startScrapeRun_opens:
  "\<exists>run \<in> set (scrape_runs (snd (startScrapeRun t db))). sr_id run = scrape_runs_id_seq db + 1"
  by (simp add: startScrapeRun_def Let_def)

text \<open>A pass never writes to \<^verbatim>\<open>alerts\<close>: nothing in \<open>runScrape\<close> calls
  \<open>createAlert\<close>.\<close>

lemma runScrape_alerts:
  "alerts (snd (runScrape g clk scraped db)) = alerts db"
proof (cases scraped)
  case (Inl e)
  then show ?thesis by (simp add: runScrape_no_data)
next
  case (Inr batch)
  show ?thesis
  proof (cases "saveListings g clk batch \<lparr>found = 0, new = 0, updated = 0, priceChanges = 0\<rparr> []
           (snd (startScrapeRun (started_at clk) db))")
    case (Inl f)
    obtain e dbf where f: "f = (e, dbf)" by (cases f)
    from saveListings_Inl [OF Inl [unfolded f]] obtain pre st1 ids1 where
      "saveListings g clk pre \<lparr>found = 0, new = 0, updated = 0, priceChanges = 0\<rparr> []
           (snd (startScrapeRun (started_at clk) db)) = Inr (st1, ids1, dbf)"
      by blast
    from saveListings_frame [OF this] have "alerts dbf = alerts db" by simp
    with Inl f Inr show ?thesis by (simp add: runScrape_batch)
  next
    case (Inr res)
    obtain st ids db2 where res: "res = (st, ids, db2)" by (cases res)
    from saveListings_frame [OF Inr [unfolded res]] have "alerts db2 = alerts db" by simp
    with Inr res \<open>scraped = Inr batch\<close> show ?thesis by (simp add: runScrape_batch)
  qed
qed

text \<open>\<open>createAlert\<close>, called for an existing user and listing with prices that fit the
  columns, inserts exactly one alert, with the type and the prices it is given.\<close>

lemma createAlert_inserts:
  assumes "int4 oldP" and "int4 newP" and "userId \<in> set (map u_id (users db))"
    and "lid \<in> set (map l_id (listings db))"
  shows "createAlert now userId lid ty None oldP newP db =
            Inr (db\<lparr> alerts := alerts db @
                   [\<lparr> a_id = alerts_id_seq db + 1, a_user_id = userId, a_listing_id = lid,
                      a_saved_search_id = None, a_alert_type = ty,
                      a_old_price = oldP, a_new_price = newP,
                      a_sent_at = None, a_read_at = None, a_created_at = now \<rparr>],
                 alerts_id_seq := alerts_id_seq db + 1 \<rparr>)"
  using assms by (simp add: createAlert_def Let_def)

text \<open>The listings of the batch are among the observed ids, and retirement leaves an
  observed listing as it is.\<close>

lemma upsertListing_row_id:
  assumes "upsertListing now data db = Inr (r, db')"
  shows "\<exists>l \<in> set (select_by_url (detailUrl data) db'). l_id l = listingId r"
  using assms
proof (cases rule: upsertListing_cases)
  case (inserted url st)
  from assms have "\<exists>l'. listings db' = listings db @ [l'] \<and> l_realtor_url l' = url
      \<and> l_id l' = listingId r"
    unfolding upsertListing_new [OF inserted]
    by (auto simp: insert_price_history_def Let_def)
  with inserted(2) show ?thesis
    by (auto simp: select_by_url_def)
next
  case (updated existing others)
  from assms have r: "listingId r = l_id existing"
    unfolding upsertListing_existing [OF updated] by auto
  from select_by_url_after_update [OF updated, of now] assms
  obtain l others' where "select_by_url (detailUrl data) db' = l # others'"
    and "l_id l = l_id existing"
    by auto
  with r show ?thesis by simp
qed

lemma saveListings_ids_grow:
  "saveListings g clk xs st ids db = Inr (st', ids', db') \<Longrightarrow> set ids \<subseteq> set ids'"
proof (induction xs arbitrary: st ids db)
  case Nil
  then show ?case by simp
next
  case (Cons x xs)
  from Cons.prems obtain r db1 where
    "saveListings g clk xs (count_result r (st\<lparr>found := found st + 1\<rparr>))
         (ids @ [listingId r]) db1 = Inr (st', ids', db')"
    by (auto split: sum.splits)
  from Cons.IH [OF this] show ?case by simp
qed

lemma saveListings_observed:
  assumes "consistent db" and "distinct (map detailUrl xs)"
    and "saveListings g clk xs st ids db = Inr (st', ids', db')"
  shows "\<forall>i < length xs. \<exists>l. select_by_url (detailUrl (xs ! i)) db' = [l] \<and> l_id l \<in> set ids'"
  using assms
proof (induction xs arbitrary: st ids db)
  case Nil
  then show ?case by simp
next
  case (Cons x xs)
  from Cons.prems(3) obtain r db1 where
    up: "upsertListing (upsert_at clk (found st)) (geocodeListing g x) db = Inr (r, db1)"
    and rest: "saveListings g clk xs (count_result r (st\<lparr>found := found st + 1\<rparr>))
         (ids @ [listingId r]) db1 = Inr (st', ids', db')"
    by (auto split: sum.splits)
  have c1: "consistent db1"
    by (rule consistent_upsertListing [OF Cons.prems(1) up])
  from Cons.prems(2) have dxs: "distinct (map detailUrl xs)"
    and xnew: "detailUrl x \<notin> set (map detailUrl xs)" by simp_all
  from Cons.IH [OF c1 dxs rest] have
    ih: "\<And>i. i < length xs \<Longrightarrow>
           \<exists>l. select_by_url (detailUrl (xs ! i)) db' = [l] \<and> l_id l \<in> set ids'"
    by simp
  from upsertListing_stores [OF Cons.prems(1) up] obtain u l' where
    u: "detailUrl x = Some u" and l': "select_by_url (Some u) db1 = [l']"
    by auto
  from upsertListing_row_id [OF up] u l' have "l_id l' = listingId r" by simp
  moreover from saveListings_ids_grow [OF rest] have "listingId r \<in> set ids'" by auto
  moreover from saveListings_stores [OF c1 dxs rest] xnew u
  have "select_by_url (Some u) db' = select_by_url (Some u) db1" by simp
  ultimately have head: "\<exists>l. select_by_url (detailUrl x) db' = [l] \<and> l_id l \<in> set ids'"
    using u l' by simp
  show ?case
  proof (intro allI impI)
    fix i assume "i < length (x # xs)"
    then show "\<exists>l. select_by_url (detailUrl ((x # xs) ! i)) db' = [l] \<and> l_id l \<in> set ids'"
      using head ih by (cases i) simp_all
  qed
qed

lemma markInactiveListings_observed:
  assumes "select_by_url url db = [l]" and "l_id l \<in> set ids"
  shows "select_by_url url (markInactiveListings t ids db) = [l]"
proof (cases "length ids = 0")
  case True
  then show ?thesis using assms(1) by (simp add: markInactiveListings_def)
next
  case False
  define f :: "listing \<Rightarrow> listing" where
    "f = (\<lambda>l. if l_id l \<notin> set ids \<and> l_is_active l \<and> l_last_seen_at l < t - grace_window
              then l\<lparr> l_is_active := False, l_updated_at := t \<rparr> else l)"
  have u: "l_realtor_url (f k) = l_realtor_url k" for k by (simp add: f_def)
  from False have "markInactiveListings t ids db = db\<lparr>listings := map f (listings db)\<rparr>"
    by (simp add: markInactiveListings_def f_def)
  then have "select_by_url url (markInactiveListings t ids db) = map f (select_by_url url db)"
    by (simp add: select_by_url_map [of f, OF u])
  with assms show ?thesis by (simp add: f_def)
qed

text \<open>With no listing observed, retirement does nothing, on every store.\<close>

lemma markInactiveListings_nothing_observed:
  "markInactiveListings now [] db = db"
  by (simp add: markInactiveListings_def)

section \<open>A store that statements may not reach\<close>

text \<open>What the loop did when it ends on such a store: it is the loop on a reachable
  store up to the snapshot at which it stopped.\<close>

lemma saveListingsOn_Inr:
  "saveListingsOn link g clk xs st ids db = Inr res \<Longrightarrow> saveListings g clk xs st ids db = Inr res"
proof (induction xs arbitrary: st ids db)
  case Nil
  then show ?case by simp
next
  case (Cons x xs)
  then show ?case
    by (auto split: if_splits sum.splits)
qed

lemma saveListingsOn_Inl:
  "saveListingsOn link g clk xs st ids db = Inl (e, dbf) \<Longrightarrow>
     \<exists>pre d post st1 ids1. xs = pre @ d # post
        \<and> saveListings g clk pre st ids db = Inr (st1, ids1, dbf)
        \<and> (\<not> upsert_ok link (found st1) \<and> e = ConnectionFailure
            \<or> upsertListing (upsert_at clk (found st1)) (geocodeListing g d) dbf = Inl e)"
proof (induction xs arbitrary: st ids db)
  case Nil
  then show ?case by simp
next
  case (Cons x xs)
  show ?case
  proof (cases "upsert_ok link (found st)")
    case False
    with Cons.prems have "e = ConnectionFailure" "dbf = db" by simp_all
    with False have "x # xs = [] @ x # xs
        \<and> saveListings g clk [] st ids db = Inr (st, ids, dbf)
        \<and> (\<not> upsert_ok link (found st) \<and> e = ConnectionFailure
            \<or> upsertListing (upsert_at clk (found st)) (geocodeListing g x) dbf = Inl e)"
      by simp
    then show ?thesis by blast
  next
    case True
    show ?thesis
    proof (cases "upsertListing (upsert_at clk (found st)) (geocodeListing g x) db")
      case (Inl err)
      with True Cons.prems have "err = e" "dbf = db" by simp_all
      with Inl have "x # xs = [] @ x # xs
          \<and> saveListings g clk [] st ids db = Inr (st, ids, dbf)
          \<and> (\<not> upsert_ok link (found st) \<and> e = ConnectionFailure
              \<or> upsertListing (upsert_at clk (found st)) (geocodeListing g x) dbf = Inl e)"
        by simp
      then show ?thesis by blast
    next
      case (Inr res)
      obtain r db1 where res: "res = (r, db1)" by (cases res)
      with Inr True Cons.prems have
        "saveListingsOn link g clk xs (count_result r (st\<lparr>found := found st + 1\<rparr>))
           (ids @ [listingId r]) db1 = Inl (e, dbf)"
        by simp
      from Cons.IH [OF this] obtain pre d post st1 ids1 where
        "xs = pre @ d # post"
        "saveListings g clk pre (count_result r (st\<lparr>found := found st + 1\<rparr>))
           (ids @ [listingId r]) db1 = Inr (st1, ids1, dbf)"
        "\<not> upsert_ok link (found st1) \<and> e = ConnectionFailure
            \<or> upsertListing (upsert_at clk (found st1)) (geocodeListing g d) dbf = Inl e"
        by blast
      with Inr res have "x # xs = (x # pre) @ d # post
          \<and> saveListings g clk (x # pre) st ids db = Inr (st1, ids1, dbf)
          \<and> (\<not> upsert_ok link (found st1) \<and> e = ConnectionFailure
              \<or> upsertListing (upsert_at clk (found st1)) (geocodeListing g d) dbf = Inl e)"
        by simp
      then show ?thesis by blast
    qed
  qed
qed

text \<open>The four places where the \<^verbatim>\<open>try\<close> block can end in an error.\<close>

lemma tryScrape_Inl_cases:
  assumes "tryScrape link g clk scraped runId db1 = Inl (e, dbf)"
  obtains
    (extractor) "scraped = Inl e" "dbf = db1"
  | (upsert) pre d post st ids where
      "scraped = Inr (pre @ d # post)"
      "saveListings g clk pre \<lparr>found = 0, new = 0, updated = 0, priceChanges = 0\<rparr> [] db1
         = Inr (st, ids, dbf)"
      "\<not> upsert_ok link (length pre) \<and> e = ConnectionFailure
         \<or> upsertListing (upsert_at clk (length pre)) (geocodeListing g d) dbf = Inl e"
  | (retirement) batch st ids where
      "scraped = Inr batch"
      "saveListings g clk batch \<lparr>found = 0, new = 0, updated = 0, priceChanges = 0\<rparr> [] db1
         = Inr (st, ids, dbf)"
      "\<not> retire_ok link" "ids \<noteq> []" "e = ConnectionFailure"
  | (completion) batch st ids db2 where
      "scraped = Inr batch"
      "saveListings g clk batch \<lparr>found = 0, new = 0, updated = 0, priceChanges = 0\<rparr> [] db1
         = Inr (st, ids, db2)"
      "retire_ok link \<or> ids = []" "\<not> complete_ok link" "e = ConnectionFailure"
      "dbf = markInactiveListings (retired_at clk) ids db2"
proof (cases scraped)
  case (Inl err)
  with assms extractor show ?thesis by (simp add: tryScrape_def)
next
  case (Inr batch)
  let ?z = "\<lparr>found = 0, new = 0, updated = 0, priceChanges = 0\<rparr>"
  show ?thesis
  proof (cases "saveListingsOn link g clk batch ?z [] db1")
    case (Inl f)
    with assms Inr have f: "saveListingsOn link g clk batch ?z [] db1 = Inl (e, dbf)"
      by (simp add: tryScrape_def)
    from saveListingsOn_Inl [OF f] obtain pre d post st1 ids1 where
      b: "batch = pre @ d # post"
      and p: "saveListings g clk pre ?z [] db1 = Inr (st1, ids1, dbf)"
      and d: "\<not> upsert_ok link (found st1) \<and> e = ConnectionFailure
            \<or> upsertListing (upsert_at clk (found st1)) (geocodeListing g d) dbf = Inl e"
      by blast
    from saveListings_found [OF p] have "found st1 = length pre" by simp
    with b p d Inr upsert show ?thesis by simp
  next
    case ok: (Inr res)
    obtain st ids db2 where res: "res = (st, ids, db2)" by (cases res)
    from saveListingsOn_Inr [OF ok] res
    have s: "saveListings g clk batch ?z [] db1 = Inr (st, ids, db2)" by simp
    show ?thesis
    proof (cases "\<not> retire_ok link \<and> length ids \<noteq> 0")
      case True
      with assms Inr ok res have "e = ConnectionFailure" "dbf = db2"
        by (simp_all add: tryScrape_def)
      with True s Inr retirement show ?thesis by simp
    next
      case False
      with assms Inr ok res have "\<not> complete_ok link" "e = ConnectionFailure"
          "dbf = markInactiveListings (retired_at clk) ids db2"
        by (simp_all add: tryScrape_def split: if_splits)
      with False s Inr completion show ?thesis by auto
    qed
  qed
qed

lemma runScrapeOn_Inl:
  assumes "start_ok link" and "runScrapeOn link g clk scraped db = (Inl e, db')"
  shows "\<exists>err dbf. tryScrape link g clk scraped (scrape_runs_id_seq db + 1)
                      (snd (startScrapeRun (started_at clk) db)) = Inl (err, dbf)
           \<and> (fail_ok link \<longrightarrow> e = err
                 \<and> db' = failScrapeRun (failed_at clk) (scrape_runs_id_seq db + 1) (message err) dbf)
           \<and> (\<not> fail_ok link \<longrightarrow> e = ConnectionFailure \<and> db' = dbf)"
  using assms
  by (auto simp: runScrapeOn_def startScrapeRun_def Let_def split: sum.splits if_splits)

lemma runScrapeOn_reachable:
  "runScrapeOn reachable g clk scraped db = runScrape g clk scraped db"
  by (simp add: runScrape_def)

lemma markInactiveListings_scrape_runs [simp]:
  "scrape_runs (markInactiveListings t ids db) = scrape_runs db"
  by (simp add: markInactiveListings_def)

lemma tryScrape_Inl_scrape_runs:
  assumes "tryScrape link g clk scraped runId db1 = Inl (e, dbf)"
  shows "scrape_runs dbf = scrape_runs db1"
  using assms
proof (cases rule: tryScrape_Inl_cases)
  case extractor
  then show ?thesis by simp
next
  case (upsert pre d post st ids)
  from saveListings_frame [OF upsert(2)] show ?thesis by simp
next
  case (retirement batch st ids)
  from saveListings_frame [OF retirement(2)] show ?thesis by simp
next
  case (completion batch st ids db2)
  from saveListings_frame [OF completion(2)] completion(6) show ?thesis by simp
qed

lemma startScrapeRun_opens_running:
  "\<exists>run \<in> set (scrape_runs (snd (startScrapeRun t db))).
      sr_id run = scrape_runs_id_seq db + 1 \<and> sr_status run = running
      \<and> sr_finished_at run = None"
  by (simp add: startScrapeRun_def Let_def)

text \<open>The run records of other passes.\<close>

lemma scrape_runs_startScrapeRun:
  "scrape_runs (snd (startScrapeRun t db)) = scrape_runs db @
      [\<lparr> sr_id = scrape_runs_id_seq db + 1, sr_started_at = t, sr_finished_at = None,
         sr_listings_found = 0, sr_listings_new = 0, sr_listings_updated = 0,
         sr_price_changes = 0, sr_status = running, sr_error = None \<rparr>]"
  by (simp add: startScrapeRun_def Let_def)

lemma other_run_failScrapeRun:
  "run \<in> set (scrape_runs db) \<Longrightarrow> sr_id run \<noteq> i
     \<Longrightarrow> run \<in> set (scrape_runs (failScrapeRun t i m db))"
  by (force simp: failScrapeRun_def)

lemma other_run_completeScrapeRun:
  "run \<in> set (scrape_runs db) \<Longrightarrow> sr_id run \<noteq> i
     \<Longrightarrow> run \<in> set (scrape_runs (completeScrapeRun t i st db))"
  by (force simp: completeScrapeRun_def)

lemma tryScrape_Inr_scrape_runs:
  assumes "tryScrape link g clk scraped runId db1 = Inr (st, db2)"
    and "run \<in> set (scrape_runs db1)" and "sr_id run \<noteq> runId"
  shows "run \<in> set (scrape_runs db2)"
proof -
  let ?z = "\<lparr>found = 0, new = 0, updated = 0, priceChanges = 0\<rparr>"
  from assms(1) obtain batch ids dbA where
    "saveListingsOn link g clk batch ?z [] db1 = Inr (st, ids, dbA)"
    and db2: "db2 = completeScrapeRun (completed_at clk) runId st
                     (markInactiveListings (retired_at clk) ids dbA)"
    by (auto simp: tryScrape_def split: sum.splits if_splits)
  from saveListings_frame [OF saveListingsOn_Inr [OF this(1)]]
  have "scrape_runs (markInactiveListings (retired_at clk) ids dbA) = scrape_runs db1"
    by simp
  with assms(2) have "run \<in> set (scrape_runs (markInactiveListings (retired_at clk) ids dbA))"
    by simp
  from other_run_completeScrapeRun [OF this assms(3)] db2 show ?thesis by simp
qed

lemma other_run_runScrapeOn:
  assumes "run \<in> set (scrape_runs db)" and "sr_id run \<noteq> scrape_runs_id_seq db + 1"
  shows "run \<in> set (scrape_runs (snd (runScrapeOn link g clk scraped db)))"
proof (cases "start_ok link")
  case False
  with assms(1) show ?thesis by (simp add: runScrapeOn_def)
next
  case True
  let ?db1 = "snd (startScrapeRun (started_at clk) db)"
  let ?id = "scrape_runs_id_seq db + 1"
  from assms(1) have in1: "run \<in> set (scrape_runs ?db1)"
    by (simp add: scrape_runs_startScrapeRun)
  have unf: "runScrapeOn link g clk scraped db =
      (case tryScrape link g clk scraped ?id ?db1 of
         Inl (err, db2) \<Rightarrow>
           if fail_ok link
           then (Inl err, failScrapeRun (failed_at clk) ?id (message err) db2)
           else (Inl ConnectionFailure, db2)
       | Inr (st, db2) \<Rightarrow> (Inr st, db2))"
    using True by (simp add: runScrapeOn_def startScrapeRun_def Let_def)
  show ?thesis
  proof (cases "tryScrape link g clk scraped ?id ?db1")
    case (Inl f)
    obtain err dbf where f: "f = (err, dbf)" by (cases f)
    from tryScrape_Inl_scrape_runs [OF Inl [unfolded f]] in1
    have "run \<in> set (scrape_runs dbf)" by simp
    with other_run_failScrapeRun [OF this assms(2)] Inl f unf show ?thesis by simp
  next
    case (Inr res)
    obtain st db2 where res: "res = (st, db2)" by (cases res)
    from tryScrape_Inr_scrape_runs [OF Inr [unfolded res] in1 assms(2)] Inr res unf
    show ?thesis by simp
  qed
qed

section \<open>The batch the extractor hands over\<close>

text \<open>\<^verbatim>\<open>scrape\<close> keeps the first listing of each URL, so the batch that
  \<open>runScrape\<close> receives has no source URL twice.\<close>

lemma addPageListings_deduped:
  assumes "deduped acc" and "\<forall>d \<in> set page. truthy_str (detailUrl d)"
  shows "deduped (addPageListings m page acc)"
  using assms
proof (induction m page acc rule: addPageListings.induct)
  case (1 m allListings seenUrls)
  then show ?case by simp
next
  case (2 m listing rest allListings seenUrls)
  from "2.prems"(2) obtain url where url: "detailUrl listing = Some url" "url \<noteq> []"
    by (cases "detailUrl listing") (auto simp: truthy_str_def)
  show ?case
  proof (cases "length allListings \<ge> m")
    case True
    with "2.prems" show ?thesis by simp
  next
    case False
    show ?thesis
    proof (cases "url \<in> seenUrls")
      case True
      with False url "2.IH"(2) [of url] "2.prems" show ?thesis by simp
    next
      case new: False
      have "deduped (allListings @ [listing], insert url seenUrls)"
        using "2.prems" url new by (auto simp: deduped_def)
      with False url new "2.IH"(3) [of url] "2.prems"(2) show ?thesis by simp
    qed
  qed
qed

lemma scrapePages_deduped:
  assumes "deduped acc" and "\<forall>page \<in> set pages. \<forall>d \<in> set page. truthy_str (detailUrl d)"
  shows "distinct (map detailUrl (scrapePages m p n pages acc))"
  using assms
proof (induction m p n pages acc rule: scrapePages.induct)
  case (1 m p n allListings seenUrls)
  then show ?case by (simp add: deduped_def)
next
  case (2 m p n pageListings "next" allListings seenUrls)
  let ?acc = "addPageListings m pageListings (allListings, seenUrls)"
  from "2.prems" have d: "deduped ?acc"
    by (intro addPageListings_deduped) simp_all
  show ?case
  proof (cases "n < p \<and> length allListings < m")
    case True
    show ?thesis
    proof (cases "length (fst ?acc) \<ge> m")
      case full: True
      with True d show ?thesis by (simp add: deduped_def Let_def)
    next
      case more: False
      from "2.prems"(2) have "\<forall>page \<in> set next. \<forall>d \<in> set page. truthy_str (detailUrl d)"
        by simp
      from "2.IH" [OF True refl more d this]
      have "distinct (map detailUrl (scrapePages m p (n + 1) next ?acc))" .
      with True more show ?thesis by (simp add: Let_def)
    qed
  next
    case False
    with "2.prems"(1) show ?thesis by (auto simp: deduped_def)
  qed
qed

lemma scrape_distinct_urls:
  assumes "\<forall>page \<in> set pages. \<forall>d \<in> set page. truthy_str (detailUrl d)"
  shows "distinct (map detailUrl (scrape maxListings maxPages pages))"
  unfolding scrape_def
  by (rule scrapePages_deduped) (simp_all add: deduped_def assms)

section \<open>Claims\<close>

text \<open>
  C1, as it holds. A snapshot with a source URL that no listing has, and that the store
  accepts (URL and street present, integer fields within \<^verbatim>\<open>INTEGER\<close>), is inserted as
  a new listing: the upsert returns \<open>isNew = true\<close>, the row is active, its
  \<open>first_seen_at\<close> equals its \<open>last_seen_at\<close>, and exactly one price point with
  the snapshot's price is inserted when the price is known and not 0; none is inserted
  when the price is unknown or 0.
\<close>

theorem upsertListing_new_listing:
  assumes "select_by_url (detailUrl data) db = []"
    and "detailUrl data = Some url" and "street data = Some st"
    and "int4 (price data)" and "int4 (beds data)" and "int4 (baths data)" and "int4 (sqft data)"
  shows "\<exists>r db' l. upsertListing now data db = Inr (r, db')
           \<and> isNew r
           \<and> listings db' = listings db @ [l]
           \<and> l_id l = listingId r \<and> l_realtor_url l = url \<and> l_price l = price data
           \<and> l_is_active l \<and> l_first_seen_at l = l_last_seen_at l
           \<and> price_history db' = price_history db @
                (case price data of
                   None \<Rightarrow> []
                 | Some p \<Rightarrow>
                     if p = 0 then []
                     else [\<lparr> ph_id = price_history_id_seq db + 1, ph_listing_id = listingId r,
                             ph_price = p, ph_recorded_at = now \<rparr>])"
  unfolding upsertListing_new [OF assms]
  by (cases "price data") (simp_all add: truthy_def insert_price_history_def Let_def)

text \<open>The theorem at the snapshot \<open>house\<close> and the empty store.\<close>

theorem upsertListing_new_listing_witness:
  "\<exists>r db' l. upsertListing 1000 house empty_database = Inr (r, db')
           \<and> isNew r
           \<and> listings db' = listings empty_database @ [l]
           \<and> l_id l = listingId r \<and> l_realtor_url l = ''/real-estate/1''
           \<and> l_price l = Some 500000
           \<and> l_is_active l \<and> l_first_seen_at l = l_last_seen_at l
           \<and> price_history db' = price_history empty_database @
                 [\<lparr> ph_id = price_history_id_seq empty_database + 1,
                    ph_listing_id = listingId r, ph_price = 500000, ph_recorded_at = 1000 \<rparr>]"
  using upsertListing_new_listing
          [of house empty_database "''/real-estate/1''" "''12 Main St''" 1000]
  by (simp add: house_def empty_database_def select_by_url_def int4_def)

text \<open>
  C1 as the specification words it fails for a known price of 0: the listing is
  inserted as new, and no price point is recorded.
\<close>

theorem upsertListing_new_zero_price_counterexample:
  "price (house\<lparr>price := Some 0\<rparr>) = Some 0
   \<and> select_by_url (detailUrl (house\<lparr>price := Some 0\<rparr>)) empty_database = []
   \<and> \<not> isl (upsertListing 1000 (house\<lparr>price := Some 0\<rparr>) empty_database)
   \<and> isNew (fst (projr (upsertListing 1000 (house\<lparr>price := Some 0\<rparr>) empty_database)))
   \<and> price_history
         (snd (projr (upsertListing 1000 (house\<lparr>price := Some 0\<rparr>) empty_database))) = []"
  by (simp add: upsertListing_def insert_listing_def select_by_url_def house_def
      empty_database_def int4_def Let_def)

text \<open>
  C9. The claim asks that an upsert onto an existing listing leaves the stored image
  list as it was when the snapshot has no images. The snapshot of a card without image
  carries the empty array (\<^verbatim>\<open>generateImageUrls\<close> returns \<^verbatim>\<open>[]\<close> for a missing
  \<^verbatim>\<open>imageUrl\<close>, and \<^verbatim>\<open>extractListingFromCard\<close> stores it in \<^verbatim>\<open>imageUrls\<close>), and
  \<^verbatim>\<open>COALESCE($3, image_urls)\<close> keeps the stored list only for NULL: the upsert of such
  a snapshot onto the listing stored with one image leaves it with none.
\<close>

theorem upsertListing_empty_images_erases:
  "select_by_url (detailUrl (house\<lparr>imageUrls := Some []\<rparr>)) house_db = [house_row]
   \<and> l_image_urls house_row = Some [''1.jpg'']
   \<and> \<not> isl (upsertListing 2000 (house\<lparr>imageUrls := Some []\<rparr>) house_db)
   \<and> map l_image_urls
        (listings (snd (projr (upsertListing 2000 (house\<lparr>imageUrls := Some []\<rparr>) house_db))))
       = [Some []]"
  by (simp add: upsertListing_def update_listing_def select_by_url_def house_def house_db_def
      house_row_def empty_database_def int4_def truthy_def)

text \<open>
  C10. A snapshot price of exactly 0 counts as no price for the history and for change
  detection: on insert no initial price point is recorded; on update no price point is
  appended and \<open>priceChanged\<close> is false whatever the stored price, while the stored
  price becomes 0; and a stored price of 0 suppresses change detection for any snapshot
  that follows.
\<close>

theorem upsertListing_zero_price:
  "(select_by_url (detailUrl data) db = [] \<and> price data = Some 0
      \<and> detailUrl data = Some url \<and> street data = Some st
      \<and> int4 (beds data) \<and> int4 (baths data) \<and> int4 (sqft data)
    \<longrightarrow> (\<exists>r db' l. upsertListing now data db = Inr (r, db') \<and> isNew r
           \<and> listings db' = listings db @ [l] \<and> l_price l = Some 0
           \<and> price_history db' = price_history db))
   \<and> (select_by_url (detailUrl data) db = existing # others \<and> price data = Some 0
    \<longrightarrow> (\<exists>r db' l others'. upsertListing now data db = Inr (r, db')
           \<and> \<not> priceChanged r
           \<and> select_by_url (detailUrl data) db' = l # others' \<and> l_id l = l_id existing
           \<and> l_price l = Some 0
           \<and> price_history db' = price_history db))
   \<and> (select_by_url (detailUrl data) db = existing # others \<and> l_price existing = Some 0
      \<and> int4 (price data)
    \<longrightarrow> (\<exists>r db'. upsertListing now data db = Inr (r, db')
           \<and> \<not> priceChanged r
           \<and> price_history db' = price_history db))"
proof (intro conjI impI)
  assume a: "select_by_url (detailUrl data) db = [] \<and> price data = Some 0
      \<and> detailUrl data = Some url \<and> street data = Some st
      \<and> int4 (beds data) \<and> int4 (baths data) \<and> int4 (sqft data)"
  then have p: "int4 (price data)" by (simp add: int4_def)
  from a have eq: "upsertListing now data db = Inr
     (\<lparr>listingId = listings_id_seq db + 1, isNew = True, priceChanged = False, oldPrice = None,
         newPrice = price data\<rparr>,
      (if truthy (price data)
       then insert_price_history now (listings_id_seq db + 1) (the (price data)) else id)
       (db\<lparr>listings := listings db @
               [\<lparr>l_id = listings_id_seq db + 1, l_realtor_url = url, l_price = price data,
                   l_street = st, l_town = town data, l_province = province data,
                   l_beds = beds data, l_baths = baths data, l_sqft = sqft data,
                   l_lat = if truthy (lat data) then lat data else None,
                   l_lng = if truthy (lng data) then lng data else None,
                   l_image_urls =
                     case imageUrls data of None \<Rightarrow> Some [] | Some imgs \<Rightarrow> Some imgs,
                   l_listed_at = listedAt data, l_first_seen_at = now, l_last_seen_at = now,
                   l_is_active = True, l_created_at = now, l_updated_at = now\<rparr>],
             listings_id_seq := listings_id_seq db + 1\<rparr>))"
    by (intro upsertListing_new p) blast+
  from a show "\<exists>r db' l. upsertListing now data db = Inr (r, db') \<and> isNew r
           \<and> listings db' = listings db @ [l] \<and> l_price l = Some 0
           \<and> price_history db' = price_history db"
    unfolding eq by (simp add: truthy_def)
next
  assume b: "select_by_url (detailUrl data) db = existing # others \<and> price data = Some 0"
  then have "int4 (price data)" by (simp add: int4_def)
  with b select_by_url_after_update [of data db existing others now]
  show "\<exists>r db' l others'. upsertListing now data db = Inr (r, db')
           \<and> \<not> priceChanged r
           \<and> select_by_url (detailUrl data) db' = l # others' \<and> l_id l = l_id existing
           \<and> l_price l = Some 0
           \<and> price_history db' = price_history db"
    by (auto simp: truthy_def)
next
  assume c: "select_by_url (detailUrl data) db = existing # others \<and> l_price existing = Some 0
      \<and> int4 (price data)"
  with select_by_url_after_update [of data db existing others now]
  show "\<exists>r db'. upsertListing now data db = Inr (r, db')
           \<and> \<not> priceChanged r
           \<and> price_history db' = price_history db"
    by (auto simp: truthy_def)
qed

text \<open>The three parts, each at a concrete store.\<close>

theorem upsertListing_zero_price_witness:
  "(\<exists>r db' l. upsertListing 1000 (house\<lparr>price := Some 0\<rparr>) empty_database = Inr (r, db')
       \<and> isNew r \<and> listings db' = listings empty_database @ [l] \<and> l_price l = Some 0
       \<and> price_history db' = price_history empty_database)
   \<and> (\<exists>r db' l others'. upsertListing 2000 (house\<lparr>price := Some 0\<rparr>) house_db = Inr (r, db')
       \<and> \<not> priceChanged r
       \<and> select_by_url (detailUrl (house\<lparr>price := Some 0\<rparr>)) db' = l # others'
       \<and> l_id l = l_id house_row \<and> l_price l = Some 0
       \<and> price_history db' = price_history house_db)
   \<and> (\<exists>r db'. upsertListing 2000 house (house_db\<lparr>listings := [house_row\<lparr>l_price := Some 0\<rparr>]\<rparr>)
                  = Inr (r, db')
       \<and> \<not> priceChanged r
       \<and> price_history db' = price_history (house_db\<lparr>listings := [house_row\<lparr>l_price := Some 0\<rparr>]\<rparr>))"
proof (intro conjI)
  have "select_by_url (detailUrl (house\<lparr>price := Some 0\<rparr>)) empty_database = []
      \<and> price (house\<lparr>price := Some 0\<rparr>) = Some 0
      \<and> detailUrl (house\<lparr>price := Some 0\<rparr>) = Some ''/real-estate/1''
      \<and> street (house\<lparr>price := Some 0\<rparr>) = Some ''12 Main St''
      \<and> int4 (beds (house\<lparr>price := Some 0\<rparr>)) \<and> int4 (baths (house\<lparr>price := Some 0\<rparr>))
      \<and> int4 (sqft (house\<lparr>price := Some 0\<rparr>))"
    by (simp add: house_def empty_database_def select_by_url_def int4_def)
  then show "\<exists>r db' l. upsertListing 1000 (house\<lparr>price := Some 0\<rparr>) empty_database = Inr (r, db')
       \<and> isNew r \<and> listings db' = listings empty_database @ [l] \<and> l_price l = Some 0
       \<and> price_history db' = price_history empty_database"
    using upsertListing_zero_price
      [of "house\<lparr>price := Some 0\<rparr>" empty_database "''/real-estate/1''" "''12 Main St''" 1000]
    by blast
next
  have "select_by_url (detailUrl (house\<lparr>price := Some 0\<rparr>)) house_db = house_row # []
      \<and> price (house\<lparr>price := Some 0\<rparr>) = Some 0"
    by (simp add: house_def house_db_def house_row_def empty_database_def select_by_url_def)
  then show "\<exists>r db' l others'. upsertListing 2000 (house\<lparr>price := Some 0\<rparr>) house_db = Inr (r, db')
       \<and> \<not> priceChanged r
       \<and> select_by_url (detailUrl (house\<lparr>price := Some 0\<rparr>)) db' = l # others'
       \<and> l_id l = l_id house_row \<and> l_price l = Some 0
       \<and> price_history db' = price_history house_db"
    using upsertListing_zero_price
      [of "house\<lparr>price := Some 0\<rparr>" house_db _ _ 2000 house_row "[]"]
    by blast
next
  have "select_by_url (detailUrl house) (house_db\<lparr>listings := [house_row\<lparr>l_price := Some 0\<rparr>]\<rparr>)
          = house_row\<lparr>l_price := Some 0\<rparr> # []
      \<and> l_price (house_row\<lparr>l_price := Some 0\<rparr>) = Some 0 \<and> int4 (price house)"
    by (simp add: house_def house_db_def house_row_def empty_database_def select_by_url_def
        int4_def)
  then show "\<exists>r db'. upsertListing 2000 house (house_db\<lparr>listings := [house_row\<lparr>l_price := Some 0\<rparr>]\<rparr>)
                  = Inr (r, db')
       \<and> \<not> priceChanged r
       \<and> price_history db' = price_history (house_db\<lparr>listings := [house_row\<lparr>l_price := Some 0\<rparr>]\<rparr>)"
    using upsertListing_zero_price
      [of house "house_db\<lparr>listings := [house_row\<lparr>l_price := Some 0\<rparr>]\<rparr>" _ _ 2000
          "house_row\<lparr>l_price := Some 0\<rparr>" "[]"]
    by blast
qed

text \<open>
  C3, as it holds. A snapshot without a price, upserted onto an existing listing,
  records no price point and reports \<open>priceChanged = false\<close>, and it overwrites the
  stored price with null. A later snapshot of the same listing with a known price is
  compared with that stored null: it reports \<open>priceChanged = false\<close> with
  \<open>oldPrice = null\<close> and appends no price point; the stored price becomes the new one.
\<close>

theorem upsertListing_null_price_then_known:
  assumes "select_by_url (detailUrl data) db = existing # others"
    and "price data = None"
    and "detailUrl data2 = detailUrl data" and "price data2 = Some p" and "int4 (Some p)"
  shows "\<exists>r1 db1 r2 db2 l others'.
           upsertListing t1 data db = Inr (r1, db1)
           \<and> \<not> priceChanged r1 \<and> price_history db1 = price_history db
           \<and> upsertListing t2 data2 db1 = Inr (r2, db2)
           \<and> \<not> priceChanged r2 \<and> oldPrice r2 = None
           \<and> price_history db2 = price_history db
           \<and> select_by_url (detailUrl data) db2 = l # others' \<and> l_price l = Some p"
proof -
  have i1: "int4 (price data)" using assms(2) by (simp add: int4_def)
  from select_by_url_after_update [OF assms(1) i1, of t1]
  obtain r1 db1 l1 others1 where
    u1: "upsertListing t1 data db = Inr (r1, db1)"
    and s1: "select_by_url (detailUrl data) db1 = l1 # others1"
    and p1: "l_price l1 = None"
    and c1: "\<not> priceChanged r1" and h1: "price_history db1 = price_history db"
    using assms(2) by (auto simp: truthy_def)
  have s1': "select_by_url (detailUrl data2) db1 = l1 # others1"
    using s1 assms(3) by simp
  have i2: "int4 (price data2)" using assms(4,5) by simp
  from select_by_url_after_update [OF s1' i2, of t2]
  obtain r2 db2 l2 others2 where
    u2: "upsertListing t2 data2 db1 = Inr (r2, db2)"
    and s2: "select_by_url (detailUrl data2) db2 = l2 # others2"
    and p2: "l_price l2 = Some p"
    and c2: "\<not> priceChanged r2" and o2: "oldPrice r2 = None"
    and h2: "price_history db2 = price_history db1"
    using assms(4) p1 by (auto simp: truthy_def)
  show ?thesis
    using u1 c1 h1 u2 c2 o2 h2 s2 p2 assms(3) by auto
qed

text \<open>The theorem at the listing stored with 500000, then null, then 510000.\<close>

theorem upsertListing_null_price_then_known_witness:
  "\<exists>r1 db1 r2 db2 l others'.
           upsertListing 2000 (house\<lparr>price := None\<rparr>) house_db = Inr (r1, db1)
           \<and> \<not> priceChanged r1 \<and> price_history db1 = price_history house_db
           \<and> upsertListing 3000 (house\<lparr>price := Some 510000\<rparr>) db1 = Inr (r2, db2)
           \<and> \<not> priceChanged r2 \<and> oldPrice r2 = None
           \<and> price_history db2 = price_history house_db
           \<and> select_by_url (detailUrl (house\<lparr>price := None\<rparr>)) db2 = l # others'
           \<and> l_price l = Some 510000"
proof -
  have "select_by_url (detailUrl (house\<lparr>price := None\<rparr>)) house_db = house_row # []"
    and "price (house\<lparr>price := None\<rparr>) = None"
    and "detailUrl (house\<lparr>price := Some 510000\<rparr>) = detailUrl (house\<lparr>price := None\<rparr>)"
    and "price (house\<lparr>price := Some 510000\<rparr>) = Some 510000"
    and "int4 (Some 510000)"
    by (simp_all add: house_def house_db_def house_row_def empty_database_def select_by_url_def
        int4_def)
  then show ?thesis
    by (rule upsertListing_null_price_then_known)
qed

text \<open>
  C3 as the specification words it fails: after 500000 and then null, the snapshot with
  510000 reports no price change and appends no price point.
\<close>

theorem upsertListing_null_price_counterexample:
  "l_price house_row = Some 500000
   \<and> select_by_url (detailUrl house) house_db = [house_row]
   \<and> \<not> isl (upsertListing 2000 (house\<lparr>price := None\<rparr>) house_db)
   \<and> \<not> isl (upsertListing 3000 (house\<lparr>price := Some 510000\<rparr>)
              (snd (projr (upsertListing 2000 (house\<lparr>price := None\<rparr>) house_db))))
   \<and> priceChanged (fst (projr (upsertListing 3000 (house\<lparr>price := Some 510000\<rparr>)
              (snd (projr (upsertListing 2000 (house\<lparr>price := None\<rparr>) house_db)))))) = False
   \<and> price_history (snd (projr (upsertListing 3000 (house\<lparr>price := Some 510000\<rparr>)
              (snd (projr (upsertListing 2000 (house\<lparr>price := None\<rparr>) house_db))))))
       = price_history house_db"
  by (simp add: upsertListing_def update_listing_def select_by_url_def house_def house_db_def
      house_row_def empty_database_def int4_def truthy_def)

text \<open>
  C4, as it holds. When the list of ids observed in the pass is not empty, retirement
  keeps every row in place and makes inactive exactly the active rows whose id is not in
  the list and whose \<open>last_seen_at\<close> is more than 24 hours before \<open>now\<close>: an absent
  listing still within the window stays active.
\<close>

theorem markInactiveListings_retires:
  assumes "activeIds \<noteq> []"
  shows "length (listings (markInactiveListings now activeIds db)) = length (listings db)
     \<and> (\<forall>i < length (listings db).
          l_id (listings (markInactiveListings now activeIds db) ! i) = l_id (listings db ! i)
          \<and> l_last_seen_at (listings (markInactiveListings now activeIds db) ! i)
              = l_last_seen_at (listings db ! i)
          \<and> (l_is_active (listings (markInactiveListings now activeIds db) ! i)
               \<longleftrightarrow> l_is_active (listings db ! i)
                    \<and> \<not> (l_id (listings db ! i) \<notin> set activeIds
                          \<and> l_last_seen_at (listings db ! i) < now - 24 * 60 * 60 * 1000000)))"
  using assms by (auto simp: markInactiveListings_def grace_window_def)

text \<open>The theorem at the stored listing, absent from the pass: retired when stale, kept
  active when last seen exactly 24 hours before.\<close>

theorem markInactiveListings_retires_witness:
  "[2] \<noteq> ([] :: int list)
   \<and> l_is_active (listings house_db ! 0)
   \<and> \<not> l_is_active (listings (markInactiveListings 200000000000 [2] house_db) ! 0)
   \<and> l_is_active (listings (markInactiveListings 86400001000 [2] house_db) ! 0)"
proof -
  have ne: "[2] \<noteq> ([] :: int list)" by simp
  have len: "0 < length (listings house_db)"
    by (simp add: house_db_def empty_database_def)
  from markInactiveListings_retires [OF ne, of 200000000000 house_db] len
  have a: "\<not> l_is_active (listings (markInactiveListings 200000000000 [2] house_db) ! 0)"
    by (simp add: house_db_def house_row_def empty_database_def)
  from markInactiveListings_retires [OF ne, of 86400001000 house_db] len
  have b: "l_is_active (listings (markInactiveListings 86400001000 [2] house_db) ! 0)"
    by (simp add: house_db_def house_row_def empty_database_def)
  have c: "l_is_active (listings house_db ! 0)"
    by (simp add: house_db_def house_row_def empty_database_def)
  from ne a b c show ?thesis by simp
qed

text \<open>
  C4 as the specification words it fails for the empty set of observed listings:
  \<open>markInactiveListings\<close> returns at once, and a stale active listing stays active.
\<close>

theorem markInactiveListings_empty_counterexample:
  "listings house_db = [house_row]
   \<and> l_is_active house_row
   \<and> l_last_seen_at house_row < 200000000000 - grace_window
   \<and> l_id house_row \<notin> set []
   \<and> markInactiveListings 200000000000 [] house_db = house_db"
  by (simp add: markInactiveListings_def house_db_def house_row_def empty_database_def
      grace_window_def)

text \<open>
  C2. Re-running a batch is idempotent for change reporting. When a pass over a batch
  without a repeated source URL (the batch \<open>scrape\<close> hands over,
  \<open>scrape_distinct_urls\<close>) has completed on a consistent store, a second pass over the
  same batch, run next, completes and counts every snapshot as neither new nor
  price-changed (\<open>new = 0\<close>, \<open>priceChanges = 0\<close>, \<open>updated = found\<close>), and adds
  no price point. And one upsert onto a listing stored with the snapshot's own price
  returns \<open>isNew = false\<close>, \<open>priceChanged = false\<close> and inserts no price point.
\<close>

theorem runScrape_twice:
  "(consistent db \<and> distinct (map detailUrl batch)
      \<and> runScrape g1 clk1 (Inr batch) db = (Inr st1, db1)
    \<longrightarrow> (\<exists>db2. runScrape g2 clk2 (Inr batch) db1
                  = (Inr \<lparr>found = length batch, new = 0, updated = length batch,
                          priceChanges = 0\<rparr>, db2)
              \<and> price_history db2 = price_history db1))
   \<and> (select_by_url (detailUrl data) store = l # others \<and> l_price l = price data
      \<and> int4 (price data)
    \<longrightarrow> (\<exists>r db'. upsertListing now data store = Inr (r, db') \<and> \<not> isNew r \<and> \<not> priceChanged r
              \<and> price_history db' = price_history store))"
proof (intro conjI impI)
  assume h: "consistent db \<and> distinct (map detailUrl batch)
      \<and> runScrape g1 clk1 (Inr batch) db = (Inr st1, db1)"
  let ?z = "\<lparr>found = 0, new = 0, updated = 0, priceChanges = 0\<rparr>"
  from h obtain ids dbA where
    run1: "saveListings g1 clk1 batch ?z [] (snd (startScrapeRun (started_at clk1) db))
             = Inr (st1, ids, dbA)"
    and db1: "db1 = completeScrapeRun (completed_at clk1) (scrape_runs_id_seq db + 1) st1
                      (markInactiveListings (retired_at clk1) ids dbA)"
    by (auto simp: runScrape_batch split: sum.splits)
  from h have c0: "consistent (snd (startScrapeRun (started_at clk1) db))"
    and dist: "distinct (map detailUrl batch)" by simp_all
  from saveListings_stores [OF c0 dist run1] have cA: "consistent dbA"
    and stA: "\<And>i. i < length batch \<Longrightarrow>
       \<exists>l. select_by_url (detailUrl (batch ! i)) dbA = [l] \<and> l_price l = price (batch ! i)"
    by blast+
  let ?dbM = "markInactiveListings (retired_at clk1) ids dbA"
  let ?db2 = "snd (startScrapeRun (started_at clk2) db1)"
  have lst: "listings ?db2 = listings ?dbM" and seq: "listings_id_seq ?db2 = listings_id_seq ?dbM"
    by (simp_all add: db1)
  have c2: "consistent ?db2"
    using consistent_markInactiveListings [OF cA, of "retired_at clk1" ids]
      consistent_cong [OF lst seq] by simp
  have st2: "\<forall>d \<in> set batch. \<exists>l. select_by_url (detailUrl d) ?db2 = [l] \<and> l_price l = price d"
  proof
    fix d assume "d \<in> set batch"
    then obtain i where i: "i < length batch" "d = batch ! i"
      by (auto simp: in_set_conv_nth)
    from stA [OF i(1)] i(2) obtain l where "select_by_url (detailUrl d) dbA = [l]"
      "l_price l = price d" by auto
    from markInactiveListings_stored_price [OF this, of "retired_at clk1" ids]
      select_by_url_listings_cong [OF lst, of "detailUrl d"]
    show "\<exists>l. select_by_url (detailUrl d) ?db2 = [l] \<and> l_price l = price d" by simp
  qed
  from saveListings_again [OF c2 dist st2, of g2 clk2 ?z "[]"]
  obtain ids' dbB where
    run2: "saveListings g2 clk2 batch ?z [] ?db2
      = Inr (?z\<lparr>found := found ?z + length batch, updated := updated ?z + length batch\<rparr>,
             ids', dbB)"
    and hist: "price_history dbB = price_history ?db2"
    by blast
  show "\<exists>db2. runScrape g2 clk2 (Inr batch) db1
                  = (Inr \<lparr>found = length batch, new = 0, updated = length batch,
                          priceChanges = 0\<rparr>, db2)
              \<and> price_history db2 = price_history db1"
    using run2 hist by (simp add: runScrape_batch)
next
  assume h: "select_by_url (detailUrl data) store = l # others \<and> l_price l = price data
      \<and> int4 (price data)"
  then have s: "select_by_url (detailUrl data) store = l # others" and i: "int4 (price data)"
    and p: "l_price l = price data" by simp_all
  from select_by_url_after_update [OF s i, of now] p
  show "\<exists>r db'. upsertListing now data store = Inr (r, db') \<and> \<not> isNew r \<and> \<not> priceChanged r
              \<and> price_history db' = price_history store"
    by auto
qed

text \<open>Two passes over \<open>house\<close> and \<open>cottage\<close> from the empty store, and one upsert
  of \<open>house\<close> onto its stored listing.\<close>

theorem runScrape_twice_witness:
  "consistent empty_database \<and> distinct (map detailUrl [house, cottage])
   \<and> fst (runScrape no_geocoder (pass_clock 2000) (Inr [house, cottage]) empty_database)
       = Inr \<lparr>found = 2, new = 2, updated = 0, priceChanges = 0\<rparr>
   \<and> fst (runScrape no_geocoder (pass_clock 9000) (Inr [house, cottage])
            (snd (runScrape no_geocoder (pass_clock 2000) (Inr [house, cottage])
                    empty_database)))
       = Inr \<lparr>found = 2, new = 0, updated = 2, priceChanges = 0\<rparr>
   \<and> (\<exists>r db'. upsertListing 2000 house house_db = Inr (r, db') \<and> \<not> isNew r
         \<and> \<not> priceChanged r \<and> price_history db' = price_history house_db)"
proof -
  let ?R = "runScrape no_geocoder (pass_clock 2000) (Inr [house, cottage]) empty_database"
  have f: "fst ?R = Inr \<lparr>found = 2, new = 2, updated = 0, priceChanges = 0\<rparr>"
    by (simp add: runScrape_batch pass_clock_def upsertListing_def insert_listing_def
      select_by_url_def geocodeListing_def no_geocoder_def truthy_def truthy_str_def
      count_result_def int4_def or_empty_def insert_price_history_def
      house_def cottage_def empty_database_def startScrapeRun_def Let_def)
  then have eq: "?R = (Inr \<lparr>found = 2, new = 2, updated = 0, priceChanges = 0\<rparr>, snd ?R)"
    by (simp add: prod_eq_iff)
  have c: "consistent empty_database" "distinct (map detailUrl [house, cottage])"
    by (simp_all add: consistent_def empty_database_def house_def cottage_def)
  have u: "select_by_url (detailUrl house) house_db = house_row # []"
      "l_price house_row = price house" "int4 (price house)"
    by (simp_all add: select_by_url_def house_def house_db_def house_row_def
        empty_database_def int4_def)
  from runScrape_twice
         [of empty_database "[house, cottage]" no_geocoder "pass_clock 2000"
             "\<lparr>found = 2, new = 2, updated = 0, priceChanges = 0\<rparr>" "snd ?R"
             no_geocoder "pass_clock 9000" house house_db house_row "[]" 2000]
    eq c u f
  show ?thesis by auto
qed




text \<open>
  C6, as it holds. Let a pass fail after its run record was opened. When the store
  accepts the statement of \<open>failScrapeRun\<close>, the run record is marked failed with the
  message of the error the pass ends with, and the time of failure; when it does not,
  the pass ends with that statement's error and the run record stays running. No listing
  is retired (every listing of the store before the pass is still there, and active if
  it was), unless the pass fails at \<open>completeScrapeRun\<close>: then retirement has been
  applied. In every case, for a batch without a repeated source URL on a consistent
  store, every snapshot upserted before the point of failure has its listing stored,
  active, with the snapshot's price and the \<open>last_seen_at\<close> of its own upsert.
\<close>

theorem runScrapeOn_failed_pass:
  assumes "start_ok link" and "runScrapeOn link g clk scraped db = (Inl e, db')"
  shows "(fail_ok link \<longrightarrow>
            (\<exists>run \<in> set (scrape_runs db').
               sr_id run = scrape_runs_id_seq db + 1 \<and> sr_status run = failed
               \<and> sr_error run = Some (message e) \<and> sr_finished_at run = Some (failed_at clk)))
     \<and> (\<not> fail_ok link \<longrightarrow>
            e = ConnectionFailure
            \<and> (\<exists>run \<in> set (scrape_runs db').
                  sr_id run = scrape_runs_id_seq db + 1 \<and> sr_status run = running
                  \<and> sr_finished_at run = None))
     \<and> ((\<forall>l \<in> set (listings db).
             \<exists>l' \<in> set (listings db'). l_id l' = l_id l \<and> (l_is_active l \<longrightarrow> l_is_active l'))
        \<or> \<not> complete_ok link
          \<and> (\<exists>batch st ids dbf.
                scraped = Inr batch
                \<and> saveListings g clk batch \<lparr>found = 0, new = 0, updated = 0, priceChanges = 0\<rparr> []
                     (snd (startScrapeRun (started_at clk) db)) = Inr (st, ids, dbf)
                \<and> (retire_ok link \<or> ids = [])
                \<and> listings db' = listings (markInactiveListings (retired_at clk) ids dbf)))
     \<and> (\<forall>batch. scraped = Inr batch \<and> consistent db \<and> distinct (map detailUrl batch) \<longrightarrow>
           (\<exists>pre rest st ids dbf.
              batch = pre @ rest
              \<and> saveListings g clk pre \<lparr>found = 0, new = 0, updated = 0, priceChanges = 0\<rparr> []
                   (snd (startScrapeRun (started_at clk) db)) = Inr (st, ids, dbf)
              \<and> (rest = []
                   \<or> (\<exists>d post. rest = d # post
                         \<and> (\<not> upsert_ok link (length pre)
                              \<or> isl (upsertListing (upsert_at clk (length pre))
                                       (geocodeListing g d) dbf))))
              \<and> (\<forall>i < length pre.
                    \<exists>l. select_by_url (detailUrl (pre ! i)) db' = [l] \<and> l_is_active l
                        \<and> l_price l = price (pre ! i)
                        \<and> l_last_seen_at l = upsert_at clk i)))"
proof -
  let ?z = "\<lparr>found = 0, new = 0, updated = 0, priceChanges = 0\<rparr>"
  let ?db1 = "snd (startScrapeRun (started_at clk) db)"
  let ?id = "scrape_runs_id_seq db + 1"
  from runScrapeOn_Inl [OF assms] obtain err dbf where
    t: "tryScrape link g clk scraped ?id ?db1 = Inl (err, dbf)"
    and ok: "fail_ok link \<Longrightarrow> e = err \<and> db' = failScrapeRun (failed_at clk) ?id (message err) dbf"
    and lost: "\<not> fail_ok link \<Longrightarrow> e = ConnectionFailure \<and> db' = dbf"
    by blast
  have ls: "listings db' = listings dbf"
    using ok lost by (cases "fail_ok link") simp_all
  have sel: "select_by_url u db' = select_by_url u dbf" for u
    by (rule select_by_url_listings_cong) (rule ls)
  from tryScrape_Inl_scrape_runs [OF t] startScrapeRun_opens_running [of "started_at clk" db]
  obtain run where run: "run \<in> set (scrape_runs dbf)" "sr_id run = ?id"
      "sr_status run = running" "sr_finished_at run = None"
    by auto
  have marked: "\<exists>run \<in> set (scrape_runs db').
               sr_id run = ?id \<and> sr_status run = failed
               \<and> sr_error run = Some (message e) \<and> sr_finished_at run = Some (failed_at clk)"
    if "fail_ok link"
    using failScrapeRun_marks [OF run(1,2), of "failed_at clk" "message err"] ok [OF that]
    by simp
  have still: "e = ConnectionFailure
            \<and> (\<exists>run \<in> set (scrape_runs db').
                  sr_id run = ?id \<and> sr_status run = running \<and> sr_finished_at run = None)"
    if "\<not> fail_ok link"
    using lost [OF that] run by auto
  have kept: "\<forall>l \<in> set (listings db).
             \<exists>l' \<in> set (listings db'). l_id l' = l_id l \<and> (l_is_active l \<longrightarrow> l_is_active l')"
    if "saveListings g clk pre ?z [] ?db1 = Inr (st, ids, dbf)" for pre st ids
  proof
    fix l assume "l \<in> set (listings db)"
    then have "l \<in> set (listings ?db1)" by simp
    from saveListings_keeps_active [OF that this] ls
    show "\<exists>l' \<in> set (listings db'). l_id l' = l_id l \<and> (l_is_active l \<longrightarrow> l_is_active l')"
      by simp
  qed
  have state: "\<forall>i < length pre.
         \<exists>l. select_by_url (detailUrl (pre ! i)) dbx = [l] \<and> l_is_active l
             \<and> l_price l = price (pre ! i) \<and> l_last_seen_at l = upsert_at clk i"
    if p: "saveListings g clk pre ?z [] ?db1 = Inr (st, ids, dbx)"
      and c: "consistent db" and dp: "distinct (map detailUrl pre)" for pre st ids dbx
  proof -
    from c have c1: "consistent ?db1" by simp
    from saveListings_stores [OF c1 dp p]
    have "\<forall>i < length pre. \<exists>l. select_by_url (detailUrl (pre ! i)) dbx = [l]
            \<and> l_price l = price (pre ! i) \<and> l_is_active l
            \<and> l_last_seen_at l = upsert_at clk (0 + i)"
      by simp
    then show ?thesis by auto
  qed
  have retire: "(\<forall>l \<in> set (listings db).
             \<exists>l' \<in> set (listings db'). l_id l' = l_id l \<and> (l_is_active l \<longrightarrow> l_is_active l'))
        \<or> \<not> complete_ok link
          \<and> (\<exists>batch st ids dbf.
                scraped = Inr batch
                \<and> saveListings g clk batch ?z [] ?db1 = Inr (st, ids, dbf)
                \<and> (retire_ok link \<or> ids = [])
                \<and> listings db' = listings (markInactiveListings (retired_at clk) ids dbf))"
    using t
  proof (cases rule: tryScrape_Inl_cases)
    case extractor
    with ls have "listings db' = listings db" by simp
    then show ?thesis by auto
  next
    case (upsert pre d post st ids)
    with kept [OF upsert(2)] show ?thesis by blast
  next
    case (retirement batch0 st ids)
    with kept [OF retirement(2)] show ?thesis by blast
  next
    case (completion batch st ids db2)
    from completion ls
    have "\<not> complete_ok link
          \<and> (scraped = Inr batch
                \<and> saveListings g clk batch ?z [] ?db1 = Inr (st, ids, db2)
                \<and> (retire_ok link \<or> ids = [])
                \<and> listings db' = listings (markInactiveListings (retired_at clk) ids db2))"
      by simp
    then show ?thesis by blast
  qed
  have prefix: "\<exists>pre rest st ids dbf.
              batch = pre @ rest
              \<and> saveListings g clk pre ?z [] ?db1 = Inr (st, ids, dbf)
              \<and> (rest = []
                   \<or> (\<exists>d post. rest = d # post
                         \<and> (\<not> upsert_ok link (length pre)
                              \<or> isl (upsertListing (upsert_at clk (length pre))
                                       (geocodeListing g d) dbf))))
              \<and> (\<forall>i < length pre.
                    \<exists>l. select_by_url (detailUrl (pre ! i)) db' = [l] \<and> l_is_active l
                        \<and> l_price l = price (pre ! i)
                        \<and> l_last_seen_at l = upsert_at clk i)"
    if b: "scraped = Inr batch \<and> consistent db \<and> distinct (map detailUrl batch)" for batch
    using t
  proof (cases rule: tryScrape_Inl_cases)
    case extractor
    with b show ?thesis by simp
  next
    case (upsert pre d post st ids)
    from b upsert(1) have bb: "batch = pre @ d # post" and c: "consistent db"
      and dp: "distinct (map detailUrl pre)" by auto
    from upsert(3) have "\<exists>d' post'. d # post = d' # post'
                              \<and> (\<not> upsert_ok link (length pre)
                                   \<or> isl (upsertListing (upsert_at clk (length pre))
                                            (geocodeListing g d') dbf))"
      by auto
    with bb upsert(2) state [OF upsert(2) c dp] sel
    have "batch = pre @ (d # post)
              \<and> saveListings g clk pre ?z [] ?db1 = Inr (st, ids, dbf)
              \<and> (d # post = []
                   \<or> (\<exists>d' post'. d # post = d' # post'
                         \<and> (\<not> upsert_ok link (length pre)
                              \<or> isl (upsertListing (upsert_at clk (length pre))
                                       (geocodeListing g d') dbf))))
              \<and> (\<forall>i < length pre.
                    \<exists>l. select_by_url (detailUrl (pre ! i)) db' = [l] \<and> l_is_active l
                        \<and> l_price l = price (pre ! i)
                        \<and> l_last_seen_at l = upsert_at clk i)"
      by simp
    then show ?thesis by blast
  next
    case (retirement batch0 st ids)
    from b retirement(1) have bb: "batch = batch0" and c: "consistent db"
      and dp: "distinct (map detailUrl batch0)" by auto
    from bb retirement(2) state [OF retirement(2) c dp] sel
    have "batch = batch0 @ []
              \<and> saveListings g clk batch0 ?z [] ?db1 = Inr (st, ids, dbf)
              \<and> (([]::snapshot list) = []
                   \<or> (\<exists>d post. [] = d # post
                         \<and> (\<not> upsert_ok link (length batch0)
                              \<or> isl (upsertListing (upsert_at clk (length batch0))
                                       (geocodeListing g d) dbf))))
              \<and> (\<forall>i < length batch0.
                    \<exists>l. select_by_url (detailUrl (batch0 ! i)) db' = [l] \<and> l_is_active l
                        \<and> l_price l = price (batch0 ! i)
                        \<and> l_last_seen_at l = upsert_at clk i)"
      by simp
    then show ?thesis by blast
  next
    case (completion batch0 st ids db2)
    from b completion(1) have bb: "batch = batch0" and c: "consistent db"
      and dp: "distinct (map detailUrl batch0)" by auto
    from c have c1: "consistent ?db1" by simp
    have rows: "\<forall>i < length batch0.
                    \<exists>l. select_by_url (detailUrl (batch0 ! i)) db' = [l] \<and> l_is_active l
                        \<and> l_price l = price (batch0 ! i)
                        \<and> l_last_seen_at l = upsert_at clk i"
    proof (intro allI impI)
      fix i assume i: "i < length batch0"
      from state [OF completion(2) c dp] i obtain l where
        l: "select_by_url (detailUrl (batch0 ! i)) db2 = [l]" "l_is_active l"
           "l_price l = price (batch0 ! i)" "l_last_seen_at l = upsert_at clk i"
        by blast
      from saveListings_observed [OF c1 dp completion(2)] i l(1)
      have "l_id l \<in> set ids" by auto
      from markInactiveListings_observed [OF l(1) this, of "retired_at clk"] completion(6) sel
      have "select_by_url (detailUrl (batch0 ! i)) db' = [l]" by simp
      with l show "\<exists>l. select_by_url (detailUrl (batch0 ! i)) db' = [l] \<and> l_is_active l
                        \<and> l_price l = price (batch0 ! i)
                        \<and> l_last_seen_at l = upsert_at clk i"
        by blast
    qed
    with bb completion(2)
    have "batch = batch0 @ []
              \<and> saveListings g clk batch0 ?z [] ?db1 = Inr (st, ids, db2)
              \<and> (([]::snapshot list) = []
                   \<or> (\<exists>d post. [] = d # post
                         \<and> (\<not> upsert_ok link (length batch0)
                              \<or> isl (upsertListing (upsert_at clk (length batch0))
                                       (geocodeListing g d) db2))))
              \<and> (\<forall>i < length batch0.
                    \<exists>l. select_by_url (detailUrl (batch0 ! i)) db' = [l] \<and> l_is_active l
                        \<and> l_price l = price (batch0 ! i)
                        \<and> l_last_seen_at l = upsert_at clk i)"
      by simp
    then show ?thesis by blast
  qed
  from marked still retire prefix show ?thesis by blast
qed

text \<open>The theorem at two failing passes from the empty store: one ends at \<open>mansion\<close>,
  whose price the store rejects, and is marked failed; the other loses the store after
  the first snapshot, and its run record stays running.\<close>

theorem runScrapeOn_failed_pass_witness:
  "start_ok reachable \<and> fail_ok reachable
   \<and> fst (runScrapeOn reachable no_geocoder (pass_clock 2000) (Inr [house, mansion, cottage])
            empty_database) = Inl NumericValueOutOfRange
   \<and> (\<exists>run \<in> set (scrape_runs (snd (runScrapeOn reachable no_geocoder (pass_clock 2000)
                                      (Inr [house, mansion, cottage]) empty_database))).
          sr_id run = scrape_runs_id_seq empty_database + 1 \<and> sr_status run = failed
          \<and> sr_error run = Some (message NumericValueOutOfRange)
          \<and> sr_finished_at run = Some (failed_at (pass_clock 2000)))
   \<and> consistent empty_database \<and> distinct (map detailUrl [house, mansion, cottage])
   \<and> (\<exists>pre rest st ids dbf.
          [house, mansion, cottage] = pre @ rest
          \<and> saveListings no_geocoder (pass_clock 2000) pre
               \<lparr>found = 0, new = 0, updated = 0, priceChanges = 0\<rparr> []
               (snd (startScrapeRun (started_at (pass_clock 2000)) empty_database))
              = Inr (st, ids, dbf)
          \<and> (rest = []
               \<or> (\<exists>d post. rest = d # post
                     \<and> (\<not> upsert_ok reachable (length pre)
                          \<or> isl (upsertListing (upsert_at (pass_clock 2000) (length pre))
                                   (geocodeListing no_geocoder d) dbf))))
          \<and> (\<forall>i < length pre.
                \<exists>l. select_by_url (detailUrl (pre ! i))
                       (snd (runScrapeOn reachable no_geocoder (pass_clock 2000)
                               (Inr [house, mansion, cottage]) empty_database)) = [l]
                    \<and> l_is_active l \<and> l_price l = price (pre ! i)
                    \<and> l_last_seen_at l = upsert_at (pass_clock 2000) i))
   \<and> start_ok (outage_from 1) \<and> \<not> fail_ok (outage_from 1)
   \<and> fst (runScrapeOn (outage_from 1) no_geocoder (pass_clock 2000) (Inr [house, cottage])
            empty_database) = Inl ConnectionFailure
   \<and> (\<exists>run \<in> set (scrape_runs (snd (runScrapeOn (outage_from 1) no_geocoder (pass_clock 2000)
                                      (Inr [house, cottage]) empty_database))).
          sr_id run = scrape_runs_id_seq empty_database + 1 \<and> sr_status run = running
          \<and> sr_finished_at run = None)"
proof -
  let ?A = "runScrapeOn reachable no_geocoder (pass_clock 2000) (Inr [house, mansion, cottage])
              empty_database"
  let ?B = "runScrapeOn (outage_from 1) no_geocoder (pass_clock 2000) (Inr [house, cottage])
              empty_database"
  have la: "start_ok reachable" "fail_ok reachable"
    by (simp_all add: reachable_def)
  have lb: "start_ok (outage_from 1)" "\<not> fail_ok (outage_from 1)"
    by (simp_all add: outage_from_def)
  have fa: "fst ?A = Inl NumericValueOutOfRange"
    by (simp add: runScrapeOn_def tryScrape_def reachable_def
      pass_clock_def upsertListing_def insert_listing_def
      select_by_url_def geocodeListing_def no_geocoder_def truthy_def truthy_str_def
      count_result_def int4_def or_empty_def insert_price_history_def
      house_def mansion_def empty_database_def startScrapeRun_def Let_def)
  then have ea: "?A = (Inl NumericValueOutOfRange, snd ?A)"
    by (simp add: prod_eq_iff)
  have fb: "fst ?B = Inl ConnectionFailure"
    by (simp add: runScrapeOn_def tryScrape_def outage_from_def
      pass_clock_def upsertListing_def insert_listing_def
      select_by_url_def geocodeListing_def no_geocoder_def truthy_def truthy_str_def
      count_result_def int4_def or_empty_def insert_price_history_def
      house_def empty_database_def startScrapeRun_def Let_def)
  then have eb: "?B = (Inl ConnectionFailure, snd ?B)"
    by (simp add: prod_eq_iff)
  from runScrapeOn_failed_pass [OF la(1) ea] la(2)
  have a: "\<exists>run \<in> set (scrape_runs (snd ?A)).
          sr_id run = scrape_runs_id_seq empty_database + 1 \<and> sr_status run = failed
          \<and> sr_error run = Some (message NumericValueOutOfRange)
          \<and> sr_finished_at run = Some (failed_at (pass_clock 2000))"
    by blast
  from runScrapeOn_failed_pass [OF lb(1) eb] lb(2)
  have b: "\<exists>run \<in> set (scrape_runs (snd ?B)).
          sr_id run = scrape_runs_id_seq empty_database + 1 \<and> sr_status run = running
          \<and> sr_finished_at run = None"
    by blast
  have c: "consistent empty_database" "distinct (map detailUrl [house, mansion, cottage])"
    by (simp_all add: consistent_def empty_database_def house_def mansion_def cottage_def)
  from runScrapeOn_failed_pass [OF la(1) ea] c
  have p: "\<exists>pre rest st ids dbf.
          [house, mansion, cottage] = pre @ rest
          \<and> saveListings no_geocoder (pass_clock 2000) pre
               \<lparr>found = 0, new = 0, updated = 0, priceChanges = 0\<rparr> []
               (snd (startScrapeRun (started_at (pass_clock 2000)) empty_database))
              = Inr (st, ids, dbf)
          \<and> (rest = []
               \<or> (\<exists>d post. rest = d # post
                     \<and> (\<not> upsert_ok reachable (length pre)
                          \<or> isl (upsertListing (upsert_at (pass_clock 2000) (length pre))
                                   (geocodeListing no_geocoder d) dbf))))
          \<and> (\<forall>i < length pre.
                \<exists>l. select_by_url (detailUrl (pre ! i)) (snd ?A) = [l]
                    \<and> l_is_active l \<and> l_price l = price (pre ! i)
                    \<and> l_last_seen_at l = upsert_at (pass_clock 2000) i)"
    by blast
  from la lb fa fb a b c p show ?thesis by blast
qed

text \<open>
  C6 as the specification words it fails twice. In a store outage that begins after the
  first snapshot and lasts, the run record is not marked failed: it stays running. And
  a pass that fails at \<open>completeScrapeRun\<close> is marked failed after retirement was
  applied: the listing of \<open>house_db\<close>, active before the pass, is inactive after it.
\<close>

theorem runScrapeOn_outage_counterexample:
  "fst (runScrapeOn (outage_from 1) no_geocoder (pass_clock 2000) (Inr [house, cottage])
          empty_database) = Inl ConnectionFailure
   \<and> map sr_status
        (scrape_runs (snd (runScrapeOn (outage_from 1) no_geocoder (pass_clock 2000)
                             (Inr [house, cottage]) empty_database))) = [running]
   \<and> map l_is_active (listings house_db) = [True]
   \<and> fst (runScrapeOn outage_at_completion no_geocoder (pass_clock 200000000000)
            (Inr [cottage]) house_db) = Inl ConnectionFailure
   \<and> map sr_status
        (scrape_runs (snd (runScrapeOn outage_at_completion no_geocoder
                             (pass_clock 200000000000) (Inr [cottage]) house_db))) = [failed]
   \<and> map l_is_active
        (listings (snd (runScrapeOn outage_at_completion no_geocoder
                          (pass_clock 200000000000) (Inr [cottage]) house_db)))
       = [False, True]"
  by (simp add: runScrapeOn_def tryScrape_def outage_from_def outage_at_completion_def
      reachable_def pass_clock_def upsertListing_def insert_listing_def
      select_by_url_def geocodeListing_def no_geocoder_def truthy_def truthy_str_def
      count_result_def int4_def or_empty_def insert_price_history_def
      markInactiveListings_def grace_window_def failScrapeRun_def
      house_def cottage_def house_db_def house_row_def empty_database_def
      startScrapeRun_def Let_def)

text \<open>
  C7. The claim asks for one alert per reconciliation event and interested user. The
  pass does not create it. User 7 has favourited listing 1 and owns a saved search with
  alerts enabled; the pass finds the price of listing 1 lowered from 500000 to 480000
  and counts the price change; after the pass the \<^verbatim>\<open>alerts\<close> table is still empty.
\<close>

theorem runScrape_price_drop_no_alert:
  "map f_user_id (favorites watched_db) = [7]
   \<and> map f_listing_id (favorites watched_db) = [1]
   \<and> map ss_user_id (saved_searches watched_db) = [7]
   \<and> map ss_alerts_enabled (saved_searches watched_db) = [True]
   \<and> fst (runScrape no_geocoder (pass_clock 2000) (Inr [house\<lparr>price := Some 480000\<rparr>])
            watched_db)
       = Inr \<lparr>found = 1, new = 0, updated = 0, priceChanges = 1\<rparr>
   \<and> alerts (snd (runScrape no_geocoder (pass_clock 2000) (Inr [house\<lparr>price := Some 480000\<rparr>])
                 watched_db)) = []"
  by (simp add: runScrape_batch pass_clock_def upsertListing_def update_listing_def
      select_by_url_def geocodeListing_def no_geocoder_def truthy_def truthy_str_def
      count_result_def int4_def or_empty_def insert_price_history_def
      house_def watched_db_def house_db_def house_row_def empty_database_def
      startScrapeRun_def Let_def)

text \<open>
  C8, as it holds. \<open>startScrapeRun\<close> checks nothing: it always inserts a new run
  record with status running and returns its id, so each started pass adds one to the
  number of running records, whatever that number was. A run record changes only through
  \<open>completeScrapeRun\<close> or \<open>failScrapeRun\<close> called with its own id: these set the
  status of the records with that id and leave every other record as it is,
  \<open>markInactiveListings\<close> and \<open>upsertListing\<close> leave all run records as they are, and
  a whole pass leaves the run record of any other pass in the store as it found it.
\<close>

theorem startScrapeRun_no_exclusion:
  "fst (startScrapeRun now db) = scrape_runs_id_seq db + 1
   \<and> (\<exists>run. scrape_runs (snd (startScrapeRun now db)) = scrape_runs db @ [run]
          \<and> sr_id run = scrape_runs_id_seq db + 1 \<and> sr_status run = running
          \<and> sr_started_at run = now \<and> sr_finished_at run = None)
   \<and> length (filter (\<lambda>run. sr_status run = running) (scrape_runs (snd (startScrapeRun now db))))
       = length (filter (\<lambda>run. sr_status run = running) (scrape_runs db)) + 1
   \<and> length (scrape_runs (completeScrapeRun now runId st db)) = length (scrape_runs db)
   \<and> length (scrape_runs (failScrapeRun now runId err db)) = length (scrape_runs db)
   \<and> (\<forall>i < length (scrape_runs db).
         (sr_id (scrape_runs db ! i) \<noteq> runId \<longrightarrow>
            scrape_runs (completeScrapeRun now runId st db) ! i = scrape_runs db ! i
            \<and> scrape_runs (failScrapeRun now runId err db) ! i = scrape_runs db ! i)
         \<and> (sr_id (scrape_runs db ! i) = runId \<longrightarrow>
            sr_status (scrape_runs (completeScrapeRun now runId st db) ! i) = completed
            \<and> sr_status (scrape_runs (failScrapeRun now runId err db) ! i) = failed))
   \<and> scrape_runs (markInactiveListings now ids db) = scrape_runs db
   \<and> (\<forall>r db'. upsertListing now data db = Inr (r, db') \<longrightarrow> scrape_runs db' = scrape_runs db)
   \<and> (\<forall>run \<in> set (scrape_runs db).
         sr_id run \<noteq> scrape_runs_id_seq db + 1 \<longrightarrow>
         run \<in> set (scrape_runs (snd (runScrapeOn link g clk scraped db))))"
proof -
  have "scrape_runs (snd (startScrapeRun now db)) = scrape_runs db @
      [\<lparr> sr_id = scrape_runs_id_seq db + 1, sr_started_at = now, sr_finished_at = None,
         sr_listings_found = 0, sr_listings_new = 0, sr_listings_updated = 0,
         sr_price_changes = 0, sr_status = running, sr_error = None \<rparr>]"
    by (rule scrape_runs_startScrapeRun)
  then have start: "fst (startScrapeRun now db) = scrape_runs_id_seq db + 1
   \<and> (\<exists>run. scrape_runs (snd (startScrapeRun now db)) = scrape_runs db @ [run]
          \<and> sr_id run = scrape_runs_id_seq db + 1 \<and> sr_status run = running
          \<and> sr_started_at run = now \<and> sr_finished_at run = None)
   \<and> length (filter (\<lambda>run. sr_status run = running) (scrape_runs (snd (startScrapeRun now db))))
       = length (filter (\<lambda>run. sr_status run = running) (scrape_runs db)) + 1"
    by simp
  have close: "length (scrape_runs (completeScrapeRun now runId st db)) = length (scrape_runs db)
   \<and> length (scrape_runs (failScrapeRun now runId err db)) = length (scrape_runs db)
   \<and> (\<forall>i < length (scrape_runs db).
         (sr_id (scrape_runs db ! i) \<noteq> runId \<longrightarrow>
            scrape_runs (completeScrapeRun now runId st db) ! i = scrape_runs db ! i
            \<and> scrape_runs (failScrapeRun now runId err db) ! i = scrape_runs db ! i)
         \<and> (sr_id (scrape_runs db ! i) = runId \<longrightarrow>
            sr_status (scrape_runs (completeScrapeRun now runId st db) ! i) = completed
            \<and> sr_status (scrape_runs (failScrapeRun now runId err db) ! i) = failed))"
    by (simp add: completeScrapeRun_def failScrapeRun_def)
  have ups: "\<forall>r db'. upsertListing now data db = Inr (r, db') \<longrightarrow> scrape_runs db' = scrape_runs db"
    using upsertListing_frame by blast
  have pass: "\<forall>run \<in> set (scrape_runs db).
         sr_id run \<noteq> scrape_runs_id_seq db + 1 \<longrightarrow>
         run \<in> set (scrape_runs (snd (runScrapeOn link g clk scraped db)))"
    using other_run_runScrapeOn by blast
  from start close ups pass show ?thesis by simp
qed

text \<open>The theorem at a store with the running record of an abandoned pass: a second
  pass runs to completion beside it, and failing the second run leaves the first
  running.\<close>

theorem startScrapeRun_no_exclusion_witness:
  "map sr_status (scrape_runs abandoned_db) = [running]
   \<and> map sr_status
        (scrape_runs (snd (runScrapeOn reachable no_geocoder (pass_clock 2000) (Inr [house])
                             abandoned_db))) = [running, completed]
   \<and> (\<exists>run \<in> set (scrape_runs (snd (runScrapeOn reachable no_geocoder (pass_clock 2000)
                                      (Inr [house]) abandoned_db))).
         sr_id run = 1 \<and> sr_status run = running)
   \<and> sr_status (scrape_runs (failScrapeRun 3000 2 ''x''
                    (snd (startScrapeRun 2000 abandoned_db))) ! 0) = running
   \<and> sr_status (scrape_runs (failScrapeRun 3000 2 ''x''
                    (snd (startScrapeRun 2000 abandoned_db))) ! 1) = failed"
proof -
  let ?two = "snd (startScrapeRun 2000 abandoned_db)"
  let ?R = "snd (runScrapeOn reachable no_geocoder (pass_clock 2000) (Inr [house])
                   abandoned_db)"
  have rows: "scrape_runs abandoned_db =
      [\<lparr> sr_id = 1, sr_started_at = 1000, sr_finished_at = None,
         sr_listings_found = 0, sr_listings_new = 0, sr_listings_updated = 0,
         sr_price_changes = 0, sr_status = running, sr_error = None \<rparr>]"
    and seq: "scrape_runs_id_seq abandoned_db = 1"
    by (simp_all add: abandoned_db_def startScrapeRun_def empty_database_def Let_def)
  have two: "length (scrape_runs ?two) = 2" "sr_id (scrape_runs ?two ! 0) = 1"
      "sr_id (scrape_runs ?two ! 1) = 2" "sr_status (scrape_runs ?two ! 0) = running"
    by (simp_all add: scrape_runs_startScrapeRun rows seq)
  note inst = startScrapeRun_no_exclusion
      [where db = ?two and runId = 2 and now = 3000 and err = "''x''",
        THEN conjunct2, THEN conjunct2, THEN conjunct2, THEN conjunct2, THEN conjunct2,
        THEN conjunct1, rule_format]
  from inst [of 0] two have f0:
    "sr_status (scrape_runs (failScrapeRun 3000 2 ''x'' ?two) ! 0) = running"
    by simp
  from inst [of 1] two have f1:
    "sr_status (scrape_runs (failScrapeRun 3000 2 ''x'' ?two) ! 1) = failed"
    by simp
  let ?row = "\<lparr> sr_id = 1, sr_started_at = 1000, sr_finished_at = None,
         sr_listings_found = 0, sr_listings_new = 0, sr_listings_updated = 0,
         sr_price_changes = 0, sr_status = running, sr_error = None \<rparr>"
  have "?row \<in> set (scrape_runs abandoned_db)"
    and "sr_id ?row \<noteq> scrape_runs_id_seq abandoned_db + 1"
    by (simp_all add: rows seq)
  from startScrapeRun_no_exclusion
      [where db = abandoned_db and link = reachable and g = no_geocoder
         and clk = "pass_clock 2000" and scraped = "Inr [house]",
        THEN conjunct2, THEN conjunct2, THEN conjunct2, THEN conjunct2, THEN conjunct2,
        THEN conjunct2, THEN conjunct2, THEN conjunct2, rule_format, OF this]
  have "?row \<in> set (scrape_runs ?R)" .
  then have p: "\<exists>run \<in> set (scrape_runs ?R). sr_id run = 1 \<and> sr_status run = running"
    by (rule rev_bexI) simp
  have e: "map sr_status (scrape_runs ?R) = [running, completed]"
    by (simp add: runScrapeOn_def tryScrape_def reachable_def
      pass_clock_def upsertListing_def insert_listing_def
      select_by_url_def geocodeListing_def no_geocoder_def truthy_def truthy_str_def
      count_result_def int4_def or_empty_def insert_price_history_def
      markInactiveListings_def completeScrapeRun_def
      house_def abandoned_db_def empty_database_def startScrapeRun_def Let_def)
  from rows f0 f1 p e show ?thesis by simp
qed

text \<open>
  C8 as the specification words it fails: two passes started one after the other, neither
  closed, leave two run records with status running.
\<close>

theorem startScrapeRun_twice_counterexample:
  "map sr_status
     (scrape_runs (snd (startScrapeRun 2000 (snd (startScrapeRun 1000 empty_database)))))
   = [running, running]"
  by (simp add: startScrapeRun_def empty_database_def Let_def)

end
